theory Spec2Isabelle
  imports Main
begin

section \<open>Module resolution settings of react-scripts (config/modules.js)\<close>

text \<open>
  The module reads the compiler options of a tsconfig.json or jsconfig.json and
  derives three settings: the additional module paths, the webpack aliases and the
  jest aliases. The configuration is parsed JSON, so the functions receive untyped
  JavaScript values; the embedding keeps them untyped and makes every exception a
  value of type \<open>error + 'a\<close>.
\<close>

subsection \<open>JavaScript values\<close>

text \<open>
  The values JSON text can denote, and \<open>undefined\<close>. An object lists its own
  properties in enumeration order. Numbers are only tested for truth and for their
  type, never computed with, so integers stand for them.
\<close>

datatype js =
    JUndefined
  | JNull
  | JBool bool
  | JNum int
  | JStr string
  | JArr "js list"
  | JObj "(string \<times> js) list"

text \<open>
  The exceptions of the module, one constructor per \<open>throw\<close> and per kind of failure
  of the runtime: a TypeError (a property read on \<open>undefined\<close> or \<open>null\<close>, a
  method call on a value without that method, a non-string argument to the path
  functions), and the failure of \<open>require\<close> or of the TypeScript loader.
\<close>

datatype error =
    TypeError
  | UnsupportedBaseUrlError
  | CompilerPathsNotObject
  | ExtendsPathsNotObject
  | NoConfigFound
  | ConflictingConfigError
  | LoadError

definition thenE :: "error + 'a \<Rightarrow> ('a \<Rightarrow> error + 'b) \<Rightarrow> error + 'b" where
  "thenE m f = (case m of Inl e \<Rightarrow> Inl e | Inr x \<Rightarrow> f x)"

text \<open>\<open>!v\<close> is \<open>\<not> truthy v\<close>.\<close>

fun truthy :: "js \<Rightarrow> bool" where
  "truthy JUndefined = False"
| "truthy JNull = False"
| "truthy (JBool b) = b"
| "truthy (JNum n) = (n \<noteq> 0)"
| "truthy (JStr s) = (s \<noteq> [])"
| "truthy (JArr xs) = True"
| "truthy (JObj kvs) = True"

text \<open>\<open>typeof v === 'object'\<close>: objects, arrays and \<open>null\<close>.\<close>

fun typeof_object :: "js \<Rightarrow> bool" where
  "typeof_object JNull = True"
| "typeof_object (JArr xs) = True"
| "typeof_object (JObj kvs) = True"
| "typeof_object v = False"

text \<open>\<open>a || b\<close>, and a parameter default \<open>(options = {})\<close>, which replaces \<open>undefined\<close> only.\<close>

definition js_or :: "js \<Rightarrow> js \<Rightarrow> js" where
  "js_or a b = (if truthy a then a else b)"

definition default_arg :: "js \<Rightarrow> js \<Rightarrow> js" where
  "default_arg v d = (if v = JUndefined then d else v)"

subsection \<open>Property keys and their order\<close>

definition is_digit :: "char \<Rightarrow> bool" where
  "is_digit c = (c \<in> set ''0123456789'')"

fun parse_nat :: "nat \<Rightarrow> string \<Rightarrow> nat option" where
  "parse_nat acc [] = Some acc"
| "parse_nat acc (c # cs) =
     (if is_digit c then parse_nat (acc * 10 + (of_char c - 48)) cs else None)"

text \<open>
  An array index is a canonical decimal numeral below \<open>2^32 - 1\<close>. An object
  enumerates its array-index keys first, in ascending order, then its other keys in
  the order they were created.
\<close>

definition array_index :: "string \<Rightarrow> nat option" where
  "array_index s =
     (if s = [] then None
      else if hd s = CHR ''0'' \<and> s \<noteq> ''0'' then None
      else case parse_nat 0 s of
             None \<Rightarrow> None
           | Some n \<Rightarrow> if n < 4294967295 then Some n else None)"

fun show_nat :: "nat \<Rightarrow> string" where
  "show_nat n =
     (if n < 10 then [''0123456789'' ! n]
      else show_nat (n div 10) @ [''0123456789'' ! (n mod 10)])"

text \<open>A key listed twice denotes its last value, as in JSON text that repeats a key.\<close>

fun obj_lookup :: "(string \<times> js) list \<Rightarrow> string \<Rightarrow> js option" where
  "obj_lookup [] k = None"
| "obj_lookup ((k', v) # kvs) k =
     (case obj_lookup kvs k of
        Some w \<Rightarrow> Some w
      | None \<Rightarrow> if k' = k then Some v else None)"

fun insert_index :: "nat \<Rightarrow> string \<times> js \<Rightarrow> (string \<times> js) list \<Rightarrow> (string \<times> js) list" where
  "insert_index i e [] = [e]"
| "insert_index i e (kv # kvs) =
     (case array_index (fst kv) of
        Some j \<Rightarrow> if j < i then kv # insert_index i e kvs else e # kv # kvs
      | None \<Rightarrow> e # kv # kvs)"

text \<open>
  Defining an own property: an existing key keeps its place and takes the new
  value, a new key goes where the enumeration order puts it.
\<close>

definition obj_set :: "(string \<times> js) list \<Rightarrow> string \<Rightarrow> js \<Rightarrow> (string \<times> js) list" where
  "obj_set kvs k v =
     (if k \<in> fst ` set kvs then map (\<lambda>kv. if fst kv = k then (k, v) else kv) kvs
      else case array_index k of
             None \<Rightarrow> kvs @ [(k, v)]
           | Some i \<Rightarrow> insert_index i (k, v) kvs)"

text \<open>
  The assignment \<open>a[k] = v\<close> of a string \<open>v\<close> to a plain object. The key
  \<open>__proto__\<close> is the inherited accessor of \<open>Object.prototype\<close>, whose setter
  ignores a value that is neither an object nor \<open>null\<close>: no own property appears.
\<close>

definition assign_str :: "(string \<times> js) list \<Rightarrow> string \<Rightarrow> string \<Rightarrow> (string \<times> js) list" where
  "assign_str a k s = (if k = ''__proto__'' then a else obj_set a k (JStr s))"

fun indexed :: "nat \<Rightarrow> js list \<Rightarrow> (string \<times> js) list" where
  "indexed i [] = []"
| "indexed i (x # xs) = (show_nat i, x) # indexed (Suc i) xs"

text \<open>
  The own enumerable properties a spread \<open>{...v}\<close> copies: those of an object, the
  elements of an array and the characters of a string under their indices, nothing
  for the other values.
\<close>

fun own_entries :: "js \<Rightarrow> (string \<times> js) list" where
  "own_entries (JObj kvs) = kvs"
| "own_entries (JArr xs) = indexed 0 xs"
| "own_entries (JStr s) = indexed 0 (map (\<lambda>c. JStr [c]) s)"
| "own_entries v = []"

definition spread_into :: "(string \<times> js) list \<Rightarrow> js \<Rightarrow> (string \<times> js) list" where
  "spread_into target v = foldl (\<lambda>acc kv. obj_set acc (fst kv) (snd kv)) target (own_entries v)"

text \<open>
  Reading \<open>v.k\<close> or \<open>v[k]\<close>. Only own properties are represented (and the length
  and elements of arrays and strings): the names the module reads are \<open>baseUrl\<close>,
  \<open>paths\<close>, \<open>appPath\<close>, \<open>appSrc\<close>, \<open>compilerOptions\<close>, \<open>extends\<close> and the own
  keys of an object, none of which is inherited.
\<close>

fun get_prop :: "js \<Rightarrow> string \<Rightarrow> error + js" where
  "get_prop JUndefined k = Inl TypeError"
| "get_prop JNull k = Inl TypeError"
| "get_prop (JObj kvs) k = Inr (case obj_lookup kvs k of Some v \<Rightarrow> v | None \<Rightarrow> JUndefined)"
| "get_prop (JArr xs) k =
     Inr (case array_index k of
            Some i \<Rightarrow> if i < length xs then xs ! i else JUndefined
          | None \<Rightarrow> if k = ''length'' then JNum (int (length xs)) else JUndefined)"
| "get_prop (JStr s) k =
     Inr (case array_index k of
            Some i \<Rightarrow> if i < length s then JStr [s ! i] else JUndefined
          | None \<Rightarrow> if k = ''length'' then JNum (int (length s)) else JUndefined)"
| "get_prop v k = Inr JUndefined"

subsection \<open>The path functions of Node (POSIX flavour)\<close>

fun split_slash :: "string \<Rightarrow> string list" where
  "split_slash [] = [[]]"
| "split_slash (c # cs) =
     (if c = CHR ''/'' then [] # split_slash cs
      else case split_slash cs of
             [] \<Rightarrow> [[c]]
           | s # ss \<Rightarrow> (c # s) # ss)"

fun join_slash :: "string list \<Rightarrow> string" where
  "join_slash [] = []"
| "join_slash [s] = s"
| "join_slash (s # ss) = s @ ''/'' @ join_slash ss"

text \<open>
  Normalising an absolute path: empty segments and \<open>.\<close> are dropped, \<open>..\<close> removes
  the segment before it and is dropped at the root. The first argument is the stack
  of segments kept so far, last one first.
\<close>

fun norm_segs :: "string list \<Rightarrow> string list \<Rightarrow> string list" where
  "norm_segs acc [] = rev acc"
| "norm_segs acc (s # ss) =
     (if s = [] \<or> s = ''.'' then norm_segs acc ss
      else if s = ''..'' then norm_segs (tl acc) ss
      else norm_segs (s # acc) ss)"

text \<open>
  \<open>path.resolve\<close> walks its arguments from the last to the first, checks that each
  one it reaches is a string, skips the empty ones and stops after the first
  absolute one; the working directory (an absolute path) comes after the first
  argument.
\<close>

fun gather :: "string \<Rightarrow> js list \<Rightarrow> string list \<Rightarrow> error + string list" where
  "gather cwd [] acc = Inr (cwd # acc)"
| "gather cwd (JStr s # args) acc =
     (if s = [] then gather cwd args acc
      else if hd s = CHR ''/'' then Inr (s # acc)
      else gather cwd args (s # acc))"
| "gather cwd (v # args) acc = Inl TypeError"

definition resolve_segs :: "string \<Rightarrow> js list \<Rightarrow> error + string list" where
  "resolve_segs cwd args =
     thenE (gather cwd (rev args) [])
       (\<lambda>parts. Inr (norm_segs [] (concat (map split_slash parts))))"

definition path_resolve :: "string \<Rightarrow> js list \<Rightarrow> error + string" where
  "path_resolve cwd args =
     thenE (resolve_segs cwd args) (\<lambda>segs. Inr (CHR ''/'' # join_slash segs))"

fun drop_common :: "string list \<Rightarrow> string list \<Rightarrow> string list \<times> string list" where
  "drop_common (x # xs) (y # ys) = (if x = y then drop_common xs ys else (x # xs, y # ys))"
| "drop_common xs ys = (xs, ys)"

text \<open>
  \<open>path.relative from to\<close>: both arguments must be strings; equal arguments give
  the empty string; otherwise both are resolved, and the result climbs out of what
  is left of \<open>from\<close> after the common leading segments and descends into what is
  left of \<open>to\<close>.
\<close>

definition path_relative :: "string \<Rightarrow> js \<Rightarrow> js \<Rightarrow> error + string" where
  "path_relative cwd from to =
     (case (from, to) of
        (JStr f, JStr t) \<Rightarrow>
          if f = t then Inr []
          else thenE (resolve_segs cwd [JStr f]) (\<lambda>fs.
               thenE (resolve_segs cwd [JStr t]) (\<lambda>ts.
                 case drop_common fs ts of
                   (fs', ts') \<Rightarrow> Inr (join_slash (map (\<lambda>s. ''..'') fs' @ ts'))))
      | _ \<Rightarrow> Inl TypeError)"

text \<open>
  \<open>path.dirname\<close>: trailing slashes are ignored, the path is cut before the last
  slash that is left (a slash at index 0 is never the cut).
\<close>

definition path_dirname :: "string \<Rightarrow> string" where
  "path_dirname p =
     (if p = [] then ''.''
      else
        let hasRoot = (hd p = CHR ''/'');
            r = dropWhile (\<lambda>c. c \<noteq> CHR ''/'') (dropWhile (\<lambda>c. c = CHR ''/'') (rev (tl p)))
        in if r = [] then (if hasRoot then ''/'' else ''.'')
           else if hasRoot \<and> tl r = [] then ''//''
           else hd p # rev (tl r))"

text \<open>\<open>s.replace(/\/\*$/, '')\<close>: one trailing \<open>/*\<close> is removed.\<close>

definition strip_glob :: "string \<Rightarrow> string" where
  "strip_glob s =
     (if 2 \<le> length s \<and> drop (length s - 2) s = ''/*'' then take (length s - 2) s else s)"

subsection \<open>The project paths and the host\<close>

text \<open>
  Modelled from the spec: the module \<open>./paths\<close> is not among the sources. It
  supplies the absolute project root, the absolute \<open>src\<close> and \<open>node_modules\<close>
  directories and the locations of the two configuration files.
\<close>

record project_paths =
  appPath :: string
  appSrc :: string
  appNodeModules :: string
  appTsConfig :: string
  appJsConfig :: string

text \<open>
  The host: the working directory of the process, \<open>fs.existsSync\<close>, \<open>require\<close> of
  a JSON file, and the TypeScript compiler found from a base directory and reading
  a configuration file (\<open>ts.readConfigFile(file, ts.sys.readFile).config\<close>).
\<close>

record host =
  cwd :: string
  existsSync :: "string \<Rightarrow> bool"
  require :: "string \<Rightarrow> error + js"
  tsReadConfig :: "string \<Rightarrow> string \<Rightarrow> error + js"

subsection \<open>getAdditionalModulePaths\<close>

definition getAdditionalModulePaths :: "project_paths \<Rightarrow> string \<Rightarrow> js \<Rightarrow> error + js" where
  "getAdditionalModulePaths pp wd options =
     thenE (get_prop (default_arg options (JObj [])) ''baseUrl'') (\<lambda>baseUrl.
       if \<not> truthy baseUrl then Inr (JStr [])
       else
         thenE (path_resolve wd [JStr (appPath pp), baseUrl]) (\<lambda>baseUrlResolved.
         thenE (path_relative wd (JStr (appNodeModules pp)) (JStr baseUrlResolved)) (\<lambda>r1.
           if r1 = [] then Inr JNull
           else
             thenE (path_relative wd (JStr (appSrc pp)) (JStr baseUrlResolved)) (\<lambda>r2.
               if r2 = [] then Inr (JArr [JStr (appSrc pp)])
               else
                 thenE (path_relative wd (JStr (appPath pp)) (JStr baseUrlResolved)) (\<lambda>r3.
                   if r3 = [] then Inr JNull
                   else Inl UnsupportedBaseUrlError)))))"

subsection \<open>getWebpackAliases\<close>

text \<open>
  The destructuring \<open>const { baseUrl, paths } = options\<close> binds \<open>paths\<close> locally:
  every \<open>paths\<close> in the body is the \<open>paths\<close> property of the options, and the
  project paths, although in scope, are not read.
\<close>

definition getWebpackAliases :: "project_paths \<Rightarrow> string \<Rightarrow> js \<Rightarrow> error + js" where
  "getWebpackAliases pp wd options =
     thenE (get_prop (default_arg options (JObj [])) ''baseUrl'') (\<lambda>baseUrl.
     thenE (get_prop (default_arg options (JObj [])) ''paths'') (\<lambda>paths.
       if \<not> truthy baseUrl \<and> truthy paths then Inr paths
       else if \<not> truthy baseUrl then Inr (JObj [])
       else
         thenE (get_prop paths ''appPath'') (\<lambda>root.
         thenE (path_resolve wd [root, baseUrl]) (\<lambda>baseUrlResolved.
         thenE (path_relative wd root (JStr baseUrlResolved)) (\<lambda>r.
           if r = [] then
             thenE (get_prop paths ''appSrc'') (\<lambda>src.
               Inr (JObj (spread_into [(''src'', src)] paths)))
           else Inr JUndefined)))))"

subsection \<open>getJestAliases\<close>

definition getJestAliases :: "project_paths \<Rightarrow> string \<Rightarrow> js \<Rightarrow> error + js" where
  "getJestAliases pp wd options =
     thenE (get_prop (default_arg options (JObj [])) ''baseUrl'') (\<lambda>baseUrl.
       if \<not> truthy baseUrl then Inr (JObj [])
       else
         thenE (path_resolve wd [JStr (appPath pp), baseUrl]) (\<lambda>baseUrlResolved.
         thenE (path_relative wd (JStr (appPath pp)) (JStr baseUrlResolved)) (\<lambda>r.
           if r = [] then Inr (JObj [(''^src/(.*)$'', JStr ''<rootDir>/src/$1'')])
           else Inr JUndefined)))"

subsection \<open>configPathsRaw\<close>

text \<open>\<open>c.compilerOptions && c.compilerOptions.paths ? c.compilerOptions.paths : {}\<close>\<close>

definition paths_or_empty :: "js \<Rightarrow> error + js" where
  "paths_or_empty c =
     thenE (get_prop c ''compilerOptions'') (\<lambda>co.
       if \<not> truthy co then Inr (JObj [])
       else thenE (get_prop co ''paths'') (\<lambda>p. Inr (if truthy p then p else JObj [])))"

definition configPathsRaw :: "js \<Rightarrow> error + js" where
  "configPathsRaw conf =
     thenE (paths_or_empty conf) (\<lambda>confPaths.
     thenE (get_prop conf ''extends'') (\<lambda>e.
     thenE (paths_or_empty (js_or e (JObj []))) (\<lambda>extPaths.
       if \<not> typeof_object confPaths then Inl CompilerPathsNotObject
       else if \<not> typeof_object extPaths then Inl ExtendsPathsNotObject
       else Inr (JObj (spread_into (spread_into [] confPaths) extPaths)))))"

subsection \<open>readConfig\<close>

text \<open>
  One step of the \<open>reduce\<close> over \<open>Object.keys(pathsRaw)\<close>: the target is the first
  element of an array value (\<open>undefined\<close> for the empty array) or the value itself;
  \<open>target.replace\<close> is a TypeError unless the target is a string.
\<close>

fun alias_target :: "js \<Rightarrow> js" where
  "alias_target (JArr []) = JUndefined"
| "alias_target (JArr (x # xs)) = x"
| "alias_target v = v"

definition alias_step ::
  "project_paths \<Rightarrow> string \<Rightarrow> js \<Rightarrow> (string \<times> js) list \<Rightarrow> string \<Rightarrow> error + (string \<times> js) list"
where
  "alias_step pp wd pathsRaw a key =
     thenE (get_prop pathsRaw key) (\<lambda>v.
       case alias_target v of
         JStr t \<Rightarrow>
           thenE (path_resolve wd [JStr (appPath pp), JStr (strip_glob t)]) (\<lambda>r.
             Inr (assign_str a (strip_glob key) r))
       | _ \<Rightarrow> Inl TypeError)"

fun alias_reduce ::
  "project_paths \<Rightarrow> string \<Rightarrow> js \<Rightarrow> (string \<times> js) list \<Rightarrow> string list \<Rightarrow> error + (string \<times> js) list"
where
  "alias_reduce pp wd pathsRaw a [] = Inr a"
| "alias_reduce pp wd pathsRaw a (key # keys) =
     thenE (alias_step pp wd pathsRaw a key) (\<lambda>a'. alias_reduce pp wd pathsRaw a' keys)"

definition aliasMap :: "project_paths \<Rightarrow> string \<Rightarrow> js \<Rightarrow> error + (string \<times> js) list" where
  "aliasMap pp wd pathsRaw = alias_reduce pp wd pathsRaw [] (map fst (own_entries pathsRaw))"

text \<open>
  A function that loads files returns the files it asked the host for, in order,
  beside its result.
\<close>

type_synonym 'a traced = "string list \<times> (error + 'a)"

definition readConfig :: "host \<Rightarrow> project_paths \<Rightarrow> js \<Rightarrow> string \<Rightarrow> js traced" where
  "readConfig h pp conf configDir =
     (if \<not> truthy conf then ([], Inl NoConfigFound)
      else
        let confdir = path_dirname configDir;
            config = spread_into [] conf
        in case get_prop conf ''extends'' of
             Inl e \<Rightarrow> ([], Inl e)
           | Inr extUrl \<Rightarrow>
               (case (if truthy extUrl then path_resolve (cwd h) [JStr confdir, extUrl] else Inr [])
                of
                  Inl e \<Rightarrow> ([], Inl e)
                | Inr extPath \<Rightarrow>
                    (if truthy extUrl then [extPath] else [],
                     thenE (if truthy extUrl then require h extPath else Inr (JObj [])) (\<lambda>parent.
                       let config' = obj_set config ''extends'' parent
                       in thenE (configPathsRaw (JObj config')) (\<lambda>pathsRaw.
                          thenE (aliasMap pp (cwd h) pathsRaw) (\<lambda>am.
                          thenE (get_prop (JObj config') ''compilerOptions'') (\<lambda>co.
                          thenE (get_prop co ''paths'') (\<lambda>cop.
                            Inr (JObj (obj_set (spread_into [] (JObj config')) ''compilerOptions''
                                   (JObj (obj_set (spread_into [] co) ''paths''
                                      (JObj (spread_into (spread_into [] cop) (JObj am)))))))))))))))"

subsection \<open>getModules\<close>

record modules =
  additionalModulePaths :: js
  webpackAliases :: js
  jestAliases :: js
  hasTsConfig :: bool

text \<open>
  The step both branches of \<open>getModules\<close> take after loading a configuration:
  \<open>if (config.extends) config = readConfig(config, file)\<close>.
\<close>

definition mergeExtends :: "host \<Rightarrow> project_paths \<Rightarrow> js \<Rightarrow> string \<Rightarrow> js traced" where
  "mergeExtends h pp config file =
     (case get_prop config ''extends'' of
        Inl e \<Rightarrow> ([], Inl e)
      | Inr hasExtends \<Rightarrow>
          if truthy hasExtends then readConfig h pp config file else ([], Inr config))"

definition loadConfig :: "host \<Rightarrow> project_paths \<Rightarrow> bool \<Rightarrow> bool \<Rightarrow> js traced" where
  "loadConfig h pp hasTs hasJs =
     (if hasTs then
        (case tsReadConfig h (appNodeModules pp) (appTsConfig pp) of
           Inl e \<Rightarrow> ([appTsConfig pp], Inl e)
         | Inr config \<Rightarrow>
             (case mergeExtends h pp config (appTsConfig pp) of
                (files, r) \<Rightarrow> (appTsConfig pp # files, r)))
      else if hasJs then
        (case require h (appJsConfig pp) of
           Inl e \<Rightarrow> ([appJsConfig pp], Inl e)
         | Inr config \<Rightarrow>
             (case mergeExtends h pp config (appJsConfig pp) of
                (files, r) \<Rightarrow> (appJsConfig pp # files, r)))
      else ([], Inr JUndefined))"

definition getModules :: "host \<Rightarrow> project_paths \<Rightarrow> modules traced" where
  "getModules h pp =
     (let hasTs = existsSync h (appTsConfig pp);
          hasJs = existsSync h (appJsConfig pp)
      in if hasTs \<and> hasJs then ([], Inl ConflictingConfigError)
         else
           case loadConfig h pp hasTs hasJs of
             (files, r) \<Rightarrow>
               (files,
                thenE r (\<lambda>config.
                thenE (get_prop (js_or config (JObj [])) ''compilerOptions'') (\<lambda>co.
                  let options = js_or co (JObj [])
                  in thenE (getAdditionalModulePaths pp (cwd h) options) (\<lambda>amp.
                     thenE (getWebpackAliases pp (cwd h) options) (\<lambda>wa.
                     thenE (getJestAliases pp (cwd h) options) (\<lambda>ja.
                       Inr \<lparr>additionalModulePaths = amp, webpackAliases = wa,
                            jestAliases = ja, hasTsConfig = hasTs\<rparr>)))))))"

subsection \<open>Vocabulary of the statements\<close>

text \<open>
  Modelled from the spec: the directories that \<open>./paths\<close> supplies are absolute
  paths in resolved form (resolving one gives it back), and the project root, its
  \<open>src\<close> and its \<open>node_modules\<close> are three different directories.
\<close>

definition project_dirs_ok :: "project_paths \<Rightarrow> bool" where
  "project_dirs_ok pp =
     (path_resolve [] [JStr (appPath pp)] = Inr (appPath pp)
      \<and> path_resolve [] [JStr (appSrc pp)] = Inr (appSrc pp)
      \<and> path_resolve [] [JStr (appNodeModules pp)] = Inr (appNodeModules pp)
      \<and> appSrc pp \<noteq> appPath pp
      \<and> appNodeModules pp \<noteq> appPath pp
      \<and> appSrc pp \<noteq> appNodeModules pp)"

text \<open>A project in \<open>/app\<close>, for the concrete runs.\<close>

definition sample_paths :: project_paths where
  "sample_paths =
     \<lparr>appPath = ''/app'', appSrc = ''/app/src'', appNodeModules = ''/app/node_modules'',
      appTsConfig = ''/app/tsconfig.json'', appJsConfig = ''/app/jsconfig.json''\<rparr>"

text \<open>
  A host whose file system holds the listed JSON files and nothing else, with
  \<open>/home\<close> as working directory; loading a file that is not there fails.
\<close>

definition json_host :: "(string \<times> js) list \<Rightarrow> host" where
  "json_host files =
     \<lparr>cwd = ''/home'',
      existsSync = (\<lambda>f. f \<in> fst ` set files),
      require = (\<lambda>f. case map_of files f of None \<Rightarrow> Inl LoadError | Some v \<Rightarrow> Inr v),
      tsReadConfig = (\<lambda>base f. case map_of files f of None \<Rightarrow> Inl LoadError | Some v \<Rightarrow> Inr v)\<rparr>"

text \<open>Segments that normalisation leaves alone.\<close>

definition clean :: "string list \<Rightarrow> bool" where
  "clean segs =
     (\<forall>s \<in> set segs. s \<noteq> [] \<and> s \<noteq> ''.'' \<and> s \<noteq> ''..'' \<and> CHR ''/'' \<notin> set s)"

text \<open>
  The value of \<open>c.compilerOptions.paths\<close>, and of \<open>c.extends\<close>; \<open>undefined\<close> where
  a link of the chain is missing.
\<close>

definition compilerOptions_paths :: "js \<Rightarrow> js" where
  "compilerOptions_paths c =
     (case get_prop c ''compilerOptions'' of
        Inl e \<Rightarrow> JUndefined
      | Inr co \<Rightarrow> (case get_prop co ''paths'' of Inl e \<Rightarrow> JUndefined | Inr p \<Rightarrow> p))"

definition extends_of :: "js \<Rightarrow> js" where
  "extends_of c = (case get_prop c ''extends'' of Inl e \<Rightarrow> JUndefined | Inr e \<Rightarrow> e)"

section \<open>Properties\<close>

subsection \<open>Resolved paths\<close>

lemma clean_simps [simp]:
  "clean []"
  "clean (s # ss) = (s \<noteq> [] \<and> s \<noteq> ''.'' \<and> s \<noteq> ''..'' \<and> CHR ''/'' \<notin> set s \<and> clean ss)"
  "clean (xs @ ys) = (clean xs \<and> clean ys)"
  "clean (rev xs) = clean xs"
  by (auto simp: clean_def)

lemma split_slash_nonempty [simp]: "split_slash s \<noteq> []"
  by (induction s) (auto split: list.splits)

lemma split_slash_no_slash: "t \<in> set (split_slash s) \<Longrightarrow> CHR ''/'' \<notin> set t"
  by (induction s arbitrary: t) (auto split: list.splits if_splits)

lemma split_slash_plain: "CHR ''/'' \<notin> set s \<Longrightarrow> split_slash s = [s]"
  by (induction s) auto

lemma split_slash_append:
  "CHR ''/'' \<notin> set s \<Longrightarrow> split_slash (s @ CHR ''/'' # t) = s # split_slash t"
  by (induction s) auto

lemma split_join:
  "segs \<noteq> [] \<Longrightarrow> \<forall>s \<in> set segs. CHR ''/'' \<notin> set s \<Longrightarrow> split_slash (join_slash segs) = segs"
  by (induction segs rule: join_slash.induct) (auto simp: split_slash_plain split_slash_append)

lemma norm_segs_clean_in: "clean segs \<Longrightarrow> norm_segs acc segs = rev acc @ segs"
  by (induction segs arbitrary: acc) auto

lemma clean_tl: "clean acc \<Longrightarrow> clean (tl acc)"
  by (cases acc) auto

lemma norm_segs_clean_out:
  "clean acc \<Longrightarrow> \<forall>s \<in> set segs. CHR ''/'' \<notin> set s \<Longrightarrow> clean (norm_segs acc segs)"
  by (induction segs arbitrary: acc) (auto simp: clean_tl)

lemma resolve_segs_clean: "resolve_segs wd args = Inr segs \<Longrightarrow> clean segs"
  by (auto simp: resolve_segs_def thenE_def split: sum.splits
      intro!: norm_segs_clean_out dest: split_slash_no_slash)

lemma resolve_segs_of_joined:
  assumes "clean segs"
  shows "resolve_segs wd [JStr (CHR ''/'' # join_slash segs)] = Inr segs"
proof (cases "segs = []")
  case True
  then show ?thesis by (simp add: resolve_segs_def thenE_def)
next
  case False
  with assms have "split_slash (join_slash segs) = segs"
    by (intro split_join) (auto simp: clean_def)
  with assms show ?thesis
    by (simp add: resolve_segs_def thenE_def norm_segs_clean_in)
qed

text \<open>Resolving a resolved path gives it back, whatever the working directory.\<close>

lemma path_resolve_idem:
  "path_resolve wd args = Inr r \<Longrightarrow> path_resolve wd' [JStr r] = Inr r"
  by (auto simp: path_resolve_def thenE_def resolve_segs_of_joined resolve_segs_clean
      split: sum.splits)

lemma path_resolve_strings:
  "\<exists>r. path_resolve wd [JStr a, JStr b] = Inr r"
  by (auto simp: path_resolve_def resolve_segs_def thenE_def)

lemma path_resolve_empty_last:
  "path_resolve wd [a, JStr []] = path_resolve wd [a]"
  by (simp add: path_resolve_def resolve_segs_def)

lemma drop_common_nil: "drop_common fs ts = ([], []) \<longleftrightarrow> fs = ts"
  by (induction fs ts rule: drop_common.induct) auto

lemma drop_common_suffix:
  "drop_common fs ts = (fs', ts') \<Longrightarrow> set fs' \<subseteq> set fs \<and> set ts' \<subseteq> set ts"
  by (induction fs ts rule: drop_common.induct) (auto split: if_splits)

lemma join_slash_nonempty: "\<forall>s \<in> set xs. s \<noteq> [] \<Longrightarrow> join_slash xs = [] \<longleftrightarrow> xs = []"
  by (induction xs rule: join_slash.induct) auto

lemma resolve_segs_single: "\<exists>segs. resolve_segs wd [JStr s] = Inr segs"
  by (auto simp: resolve_segs_def thenE_def)

lemma path_relative_string: "\<exists>r. path_relative wd (JStr f) (JStr t) = Inr r"
  by (auto simp: path_relative_def resolve_segs_def thenE_def split: prod.splits)

text \<open>The relative path is empty exactly when both ends resolve to the same place.\<close>

lemma path_relative_empty:
  "path_relative wd (JStr f) (JStr t) = Inr [] \<longleftrightarrow>
     resolve_segs wd [JStr f] = resolve_segs wd [JStr t]"
proof (cases "f = t")
  case True
  then show ?thesis by (simp add: path_relative_def)
next
  case False
  obtain fs where fs: "resolve_segs wd [JStr f] = Inr fs"
    using resolve_segs_single by blast
  obtain ts where ts: "resolve_segs wd [JStr t] = Inr ts"
    using resolve_segs_single by blast
  obtain fs' ts' where dc: "drop_common fs ts = (fs', ts')"
    by (cases "drop_common fs ts") auto
  have "clean ts" using ts by (rule resolve_segs_clean)
  with dc have ne: "\<forall>s \<in> set (map (\<lambda>s. ''..'') fs' @ ts'). s \<noteq> []"
    using drop_common_suffix [OF dc] by (auto simp: clean_def)
  have "path_relative wd (JStr f) (JStr t) = Inr (join_slash (map (\<lambda>s. ''..'') fs' @ ts'))"
    using False fs ts dc by (simp add: path_relative_def thenE_def)
  moreover have "join_slash (map (\<lambda>s. ''..'') fs' @ ts') = [] \<longleftrightarrow> fs' = [] \<and> ts' = []"
    using join_slash_nonempty [OF ne] by simp
  moreover have "fs' = [] \<and> ts' = [] \<longleftrightarrow> fs = ts"
    using drop_common_nil [of fs ts] dc by simp
  ultimately show ?thesis using fs ts by simp
qed

lemma path_relative_resolved:
  assumes "path_resolve wd0 [JStr d] = Inr d" and "path_resolve wd args = Inr r"
  shows "path_relative wd (JStr d) (JStr r) = Inr [] \<longleftrightarrow> r = d"
proof -
  have "path_resolve wd [JStr d] = Inr d"
    using assms(1) by (rule path_resolve_idem)
  then obtain ds where ds: "resolve_segs wd [JStr d] = Inr ds" and d: "d = CHR ''/'' # join_slash ds"
    by (auto simp: path_resolve_def thenE_def split: sum.splits)
  obtain rs where rs: "resolve_segs wd args = Inr rs" and r: "r = CHR ''/'' # join_slash rs"
    using assms(2) by (auto simp: path_resolve_def thenE_def split: sum.splits)
  have rs': "resolve_segs wd [JStr r] = Inr rs"
    unfolding r using rs by (intro resolve_segs_of_joined resolve_segs_clean)
  show ?thesis
  proof
    assume "path_relative wd (JStr d) (JStr r) = Inr []"
    then have "ds = rs" using ds rs' by (simp add: path_relative_empty)
    then show "r = d" using d r by simp
  next
    assume "r = d"
    then show "path_relative wd (JStr d) (JStr r) = Inr []" by (simp add: path_relative_def)
  qed
qed

subsection \<open>getAdditionalModulePaths\<close>

lemma sample_paths_ok: "project_dirs_ok sample_paths"
  by (simp add: project_dirs_ok_def sample_paths_def path_resolve_def resolve_segs_def thenE_def)

lemma gamp_falsy:
  "get_prop (default_arg options (JObj [])) ''baseUrl'' = Inr b \<Longrightarrow> \<not> truthy b \<Longrightarrow>
   getAdditionalModulePaths pp wd options = Inr (JStr [])"
  by (simp add: getAdditionalModulePaths_def thenE_def)

lemma gamp_string:
  assumes ok: "project_dirs_ok pp"
    and b: "get_prop (default_arg options (JObj [])) ''baseUrl'' = Inr (JStr s)"
    and s: "s \<noteq> []"
    and r: "path_resolve wd [JStr (appPath pp), JStr s] = Inr r"
  shows "getAdditionalModulePaths pp wd options =
           (if r = appNodeModules pp then Inr JNull
            else if r = appSrc pp then Inr (JArr [JStr (appSrc pp)])
            else if r = appPath pp then Inr JNull
            else Inl UnsupportedBaseUrlError)"
proof -
  obtain x1 where x1: "path_relative wd (JStr (appNodeModules pp)) (JStr r) = Inr x1"
    using path_relative_string by blast
  obtain x2 where x2: "path_relative wd (JStr (appSrc pp)) (JStr r) = Inr x2"
    using path_relative_string by blast
  obtain x3 where x3: "path_relative wd (JStr (appPath pp)) (JStr r) = Inr x3"
    using path_relative_string by blast
  have e1: "x1 = [] \<longleftrightarrow> r = appNodeModules pp"
    using path_relative_resolved [OF _ r, of "[]" "appNodeModules pp"] ok x1
    by (simp add: project_dirs_ok_def)
  have e2: "x2 = [] \<longleftrightarrow> r = appSrc pp"
    using path_relative_resolved [OF _ r, of "[]" "appSrc pp"] ok x2
    by (simp add: project_dirs_ok_def)
  have e3: "x3 = [] \<longleftrightarrow> r = appPath pp"
    using path_relative_resolved [OF _ r, of "[]" "appPath pp"] ok x3
    by (simp add: project_dirs_ok_def)
  show ?thesis
    using b s r x1 x2 x3 e1 e2 e3 by (simp add: getAdditionalModulePaths_def thenE_def)
qed

text \<open>
  Claim C1, as the code has it. A \<open>baseUrl\<close> that is absent or falsy (the empty
  string among them) gives the empty-string sentinel. A non-empty \<open>baseUrl\<close>
  string that, resolved against the project root, is the \<open>node_modules\<close> directory
  or the project root gives \<open>null\<close>; one that is the \<open>src\<close> directory gives the
  one-element array \<open>[appSrc]\<close>.
\<close>

theorem getAdditionalModulePaths_by_baseUrl:
  assumes "project_dirs_ok pp"
    and "get_prop (default_arg options (JObj [])) ''baseUrl'' = Inr b"
  shows "(\<not> truthy b \<longrightarrow> getAdditionalModulePaths pp wd options = Inr (JStr []))
       \<and> (\<forall>s r. b = JStr s \<and> s \<noteq> [] \<and> path_resolve wd [JStr (appPath pp), JStr s] = Inr r \<longrightarrow>
            (r = appNodeModules pp \<or> r = appPath pp \<longrightarrow>
               getAdditionalModulePaths pp wd options = Inr JNull)
          \<and> (r = appSrc pp \<longrightarrow>
               getAdditionalModulePaths pp wd options = Inr (JArr [JStr (appSrc pp)])))"
proof (intro conjI allI impI)
  assume "\<not> truthy b"
  with assms(2) show "getAdditionalModulePaths pp wd options = Inr (JStr [])"
    by (rule gamp_falsy)
next
  fix s r
  assume h: "b = JStr s \<and> s \<noteq> [] \<and> path_resolve wd [JStr (appPath pp), JStr s] = Inr r"
  then have g: "getAdditionalModulePaths pp wd options =
           (if r = appNodeModules pp then Inr JNull
            else if r = appSrc pp then Inr (JArr [JStr (appSrc pp)])
            else if r = appPath pp then Inr JNull
            else Inl UnsupportedBaseUrlError)"
    using assms by (intro gamp_string) auto
  { assume "r = appNodeModules pp \<or> r = appPath pp"
    with g assms(1) show "getAdditionalModulePaths pp wd options = Inr JNull"
      by (auto simp: project_dirs_ok_def) }
  { assume "r = appSrc pp"
    with g assms(1) show "getAdditionalModulePaths pp wd options = Inr (JArr [JStr (appSrc pp)])"
      by (auto simp: project_dirs_ok_def) }
qed

theorem getAdditionalModulePaths_by_baseUrl_witness:
  "project_dirs_ok sample_paths
   \<and> getAdditionalModulePaths sample_paths ''/home'' (JObj []) = Inr (JStr [])
   \<and> getAdditionalModulePaths sample_paths ''/home'' (JObj [(''baseUrl'', JStr ''node_modules'')])
       = Inr JNull
   \<and> getAdditionalModulePaths sample_paths ''/home'' (JObj [(''baseUrl'', JStr ''./'')])
       = Inr JNull
   \<and> getAdditionalModulePaths sample_paths ''/home'' (JObj [(''baseUrl'', JStr ''src'')])
       = Inr (JArr [JStr ''/app/src''])"
proof -
  have absent: "get_prop (default_arg (JObj []) (JObj [])) ''baseUrl'' = Inr JUndefined"
    by (simp add: default_arg_def)
  have b: "get_prop (default_arg (JObj [(''baseUrl'', JStr s)]) (JObj [])) ''baseUrl'' = Inr (JStr s)"
    for s by (simp add: default_arg_def)
  have r1: "path_resolve ''/home'' [JStr (appPath sample_paths), JStr ''node_modules'']
              = Inr (appNodeModules sample_paths)"
    by (simp add: sample_paths_def path_resolve_def resolve_segs_def thenE_def)
  have r2: "path_resolve ''/home'' [JStr (appPath sample_paths), JStr ''./'']
              = Inr (appPath sample_paths)"
    by (simp add: sample_paths_def path_resolve_def resolve_segs_def thenE_def)
  have r3: "path_resolve ''/home'' [JStr (appPath sample_paths), JStr ''src'']
              = Inr (appSrc sample_paths)"
    by (simp add: sample_paths_def path_resolve_def resolve_segs_def thenE_def)
  have "getAdditionalModulePaths sample_paths ''/home'' (JObj []) = Inr (JStr [])"
    using getAdditionalModulePaths_by_baseUrl [OF sample_paths_ok absent] by simp
  moreover have "getAdditionalModulePaths sample_paths ''/home''
                   (JObj [(''baseUrl'', JStr ''node_modules'')]) = Inr JNull"
    using getAdditionalModulePaths_by_baseUrl [OF sample_paths_ok b] r1 by blast
  moreover have "getAdditionalModulePaths sample_paths ''/home''
                   (JObj [(''baseUrl'', JStr ''./'')]) = Inr JNull"
    using getAdditionalModulePaths_by_baseUrl [OF sample_paths_ok b] r2 by blast
  moreover have "getAdditionalModulePaths sample_paths ''/home''
                   (JObj [(''baseUrl'', JStr ''src'')]) = Inr (JArr [JStr (appSrc sample_paths)])"
    using getAdditionalModulePaths_by_baseUrl [OF sample_paths_ok b] r3 by blast
  ultimately show ?thesis
    using sample_paths_ok by (simp add: sample_paths_def)
qed

text \<open>
  The empty string is a \<open>baseUrl\<close> that resolves to the project root, and the
  result for it is the empty-string sentinel, not \<open>null\<close>.
\<close>

theorem getAdditionalModulePaths_empty_baseUrl_counterexample:
  "path_resolve ''/home'' [JStr (appPath sample_paths), JStr ''''] = Inr (appPath sample_paths)
   \<and> getAdditionalModulePaths sample_paths ''/home'' (JObj [(''baseUrl'', JStr '''')])
       = Inr (JStr '''')
   \<and> getAdditionalModulePaths sample_paths ''/home'' (JObj [(''baseUrl'', JStr '''')])
       \<noteq> Inr JNull"
  by (simp add: getAdditionalModulePaths_def thenE_def default_arg_def sample_paths_def
      path_resolve_def resolve_segs_def)

lemma gamp_nonstring:
  "get_prop (default_arg options (JObj [])) ''baseUrl'' = Inr b \<Longrightarrow> truthy b \<Longrightarrow>
   \<forall>s. b \<noteq> JStr s \<Longrightarrow> getAdditionalModulePaths pp wd options = Inl TypeError"
  by (cases b) (auto simp: getAdditionalModulePaths_def thenE_def path_resolve_def resolve_segs_def)

lemma gamp_get_prop_error:
  "get_prop (default_arg options (JObj [])) ''baseUrl'' = Inl e \<Longrightarrow>
   getAdditionalModulePaths pp wd options = Inl e"
  by (simp add: getAdditionalModulePaths_def thenE_def)

lemma resolve_root_empty:
  "project_dirs_ok pp \<Longrightarrow> path_resolve wd [JStr (appPath pp), JStr []] = Inr (appPath pp)"
  using path_resolve_idem [of "[]" "[JStr (appPath pp)]" "appPath pp" wd]
  by (simp add: path_resolve_empty_last project_dirs_ok_def)

lemma getModules_gamp_error:
  assumes "\<not> (existsSync h (appTsConfig pp) \<and> existsSync h (appJsConfig pp))"
    and "loadConfig h pp (existsSync h (appTsConfig pp)) (existsSync h (appJsConfig pp))
           = (files, Inr config)"
    and "get_prop (js_or config (JObj [])) ''compilerOptions'' = Inr co"
    and "getAdditionalModulePaths pp (cwd h) (js_or co (JObj [])) = Inl e"
  shows "getModules h pp = (files, Inl e)"
  using assms by (auto simp: getModules_def thenE_def Let_def)

text \<open>
  The other exception of \<open>getAdditionalModulePaths\<close>: a TypeError, when the options
  are \<open>null\<close> or \<open>baseUrl\<close> is truthy and not a string (\<open>path.resolve\<close> rejects it).
\<close>

lemma gamp_type_error:
  assumes ok: "project_dirs_ok pp"
  shows "getAdditionalModulePaths pp wd options = Inl TypeError \<longleftrightarrow>
           options = JNull
           \<or> (\<exists>b. get_prop (default_arg options (JObj [])) ''baseUrl'' = Inr b
                 \<and> truthy b \<and> (\<forall>s. b \<noteq> JStr s))"
proof (cases "get_prop (default_arg options (JObj [])) ''baseUrl''")
  case (Inl e)
  then have "options = JNull" and "e = TypeError"
    by (cases options; simp add: default_arg_def)+
  with Inl show ?thesis using gamp_get_prop_error [of options e pp wd] by simp
next
  case (Inr b)
  then have nn: "options \<noteq> JNull" by (auto simp: default_arg_def)
  show ?thesis
  proof (cases "\<exists>s. b = JStr s")
    case True
    then obtain s where s: "b = JStr s" by blast
    obtain r where r: "path_resolve wd [JStr (appPath pp), JStr s] = Inr r"
      using path_resolve_strings by blast
    have "getAdditionalModulePaths pp wd options \<noteq> Inl TypeError"
    proof (cases "s = []")
      case True
      then show ?thesis using gamp_falsy [OF Inr] s by simp
    next
      case False
      show ?thesis using gamp_string [OF ok _ False r, of options] Inr s by auto
    qed
    with nn Inr s show ?thesis by auto
  next
    case False
    show ?thesis
    proof (cases "truthy b")
      case True
      then show ?thesis using gamp_nonstring [OF Inr True] False Inr by auto
    next
      case f: False
      then show ?thesis using gamp_falsy [OF Inr f] nn Inr by auto
    qed
  qed
qed

lemma gamp_error_kinds:
  assumes ok: "project_dirs_ok pp"
    and e: "getAdditionalModulePaths pp wd options = Inl e"
  shows "e = UnsupportedBaseUrlError \<or> e = TypeError"
proof (cases "get_prop (default_arg options (JObj [])) ''baseUrl''")
  case (Inl e')
  then have "e' = TypeError" by (cases options; simp add: default_arg_def)
  with Inl e show ?thesis using gamp_get_prop_error [of options e' pp wd] by simp
next
  case (Inr b)
  show ?thesis
  proof (cases "truthy b")
    case False
    then show ?thesis using gamp_falsy [OF Inr False] e by simp
  next
    case True
    show ?thesis
    proof (cases "\<exists>s. b = JStr s")
      case False
      then show ?thesis using gamp_nonstring [OF Inr True] e by auto
    next
      case s: True
      then obtain s where s: "b = JStr s" by blast
      with True have ne: "s \<noteq> []" by simp
      obtain r where r: "path_resolve wd [JStr (appPath pp), JStr s] = Inr r"
        using path_resolve_strings by blast
      show ?thesis using gamp_string [OF ok _ ne r, of options] Inr s e by (auto split: if_splits)
    qed
  qed
qed

text \<open>
  Claim C2, as the code has it. \<open>getAdditionalModulePaths\<close> throws the
  unsupported-baseUrl error exactly when \<open>baseUrl\<close> is a string whose resolution
  against the project root is none of the \<open>node_modules\<close> directory, the \<open>src\<close>
  directory and the project root, and \<open>getModules\<close> then ends with that error
  instead of a bundle. For a \<open>baseUrl\<close> that is absent or a string it throws
  nothing else. The one other exception is a TypeError, thrown exactly when the
  options are \<open>null\<close> or \<open>baseUrl\<close> is truthy and not a string.
\<close>

theorem unsupported_baseUrl:
  assumes ok: "project_dirs_ok pp"
  shows "(getAdditionalModulePaths pp wd options = Inl UnsupportedBaseUrlError \<longleftrightarrow>
            (\<exists>s r. get_prop (default_arg options (JObj [])) ''baseUrl'' = Inr (JStr s)
                 \<and> path_resolve wd [JStr (appPath pp), JStr s] = Inr r
                 \<and> r \<noteq> appNodeModules pp \<and> r \<noteq> appSrc pp \<and> r \<noteq> appPath pp))
       \<and> (\<forall>e. getAdditionalModulePaths pp wd options = Inl e
             \<and> (get_prop (default_arg options (JObj [])) ''baseUrl'' = Inr JUndefined
                \<or> (\<exists>s. get_prop (default_arg options (JObj [])) ''baseUrl'' = Inr (JStr s)))
             \<longrightarrow> e = UnsupportedBaseUrlError)
       \<and> (\<forall>files config co.
             \<not> (existsSync h (appTsConfig pp) \<and> existsSync h (appJsConfig pp))
             \<and> loadConfig h pp (existsSync h (appTsConfig pp)) (existsSync h (appJsConfig pp))
                 = (files, Inr config)
             \<and> get_prop (js_or config (JObj [])) ''compilerOptions'' = Inr co
             \<and> getAdditionalModulePaths pp (cwd h) (js_or co (JObj [])) = Inl UnsupportedBaseUrlError
             \<longrightarrow> getModules h pp = (files, Inl UnsupportedBaseUrlError))
       \<and> (getAdditionalModulePaths pp wd options = Inl TypeError \<longleftrightarrow>
            options = JNull
            \<or> (\<exists>b. get_prop (default_arg options (JObj [])) ''baseUrl'' = Inr b
                  \<and> truthy b \<and> (\<forall>s. b \<noteq> JStr s)))
       \<and> (\<forall>e. getAdditionalModulePaths pp wd options = Inl e \<longrightarrow>
             e = UnsupportedBaseUrlError \<or> e = TypeError)"
proof -
  let ?g = "get_prop (default_arg options (JObj [])) ''baseUrl''"
  let ?out = "\<lambda>r. r \<noteq> appNodeModules pp \<and> r \<noteq> appSrc pp \<and> r \<noteq> appPath pp"
  have str: "getAdditionalModulePaths pp wd options = Inl e \<longleftrightarrow>
               e = UnsupportedBaseUrlError \<and> ?out r"
    if "?g = Inr (JStr s)" "path_resolve wd [JStr (appPath pp), JStr s] = Inr r" for s r e
  proof (cases "s = []")
    case True
    then have "r = appPath pp" using that(2) resolve_root_empty [OF ok] by simp
    moreover have "getAdditionalModulePaths pp wd options = Inr (JStr [])"
      using that(1) True by (intro gamp_falsy) auto
    ultimately show ?thesis by simp
  next
    case False
    show ?thesis using gamp_string [OF ok that(1) False that(2)] by auto
  qed
  have first: "getAdditionalModulePaths pp wd options = Inl UnsupportedBaseUrlError \<longleftrightarrow>
            (\<exists>s r. ?g = Inr (JStr s) \<and> path_resolve wd [JStr (appPath pp), JStr s] = Inr r \<and> ?out r)"
  proof
    assume l: "getAdditionalModulePaths pp wd options = Inl UnsupportedBaseUrlError"
    show "\<exists>s r. ?g = Inr (JStr s) \<and> path_resolve wd [JStr (appPath pp), JStr s] = Inr r \<and> ?out r"
    proof (cases ?g)
      case (Inl e)
      then show ?thesis
        using l gamp_get_prop_error [of options e] by (cases options) (auto simp: default_arg_def)
    next
      case (Inr b)
      show ?thesis
      proof (cases "\<exists>s. b = JStr s")
        case True
        then obtain s where s: "b = JStr s" by blast
        obtain r where r: "path_resolve wd [JStr (appPath pp), JStr s] = Inr r"
          using path_resolve_strings by blast
        show ?thesis using str [of s r UnsupportedBaseUrlError] Inr s r l by auto
      next
        case False
        show ?thesis
        proof (cases "truthy b")
          case True
          then show ?thesis using gamp_nonstring [OF Inr True] False l by auto
        next
          case False
          then show ?thesis using gamp_falsy [OF Inr False] l by simp
        qed
      qed
    qed
  next
    assume "\<exists>s r. ?g = Inr (JStr s) \<and> path_resolve wd [JStr (appPath pp), JStr s] = Inr r \<and> ?out r"
    then show "getAdditionalModulePaths pp wd options = Inl UnsupportedBaseUrlError"
      using str by blast
  qed
  have second: "e = UnsupportedBaseUrlError"
    if "getAdditionalModulePaths pp wd options = Inl e"
       "?g = Inr JUndefined \<or> (\<exists>s. ?g = Inr (JStr s))" for e
  proof -
    from that(2) show ?thesis
    proof
      assume "?g = Inr JUndefined"
      then show ?thesis using gamp_falsy [of options JUndefined] that(1) by simp
    next
      assume "\<exists>s. ?g = Inr (JStr s)"
      then obtain s where s: "?g = Inr (JStr s)" by blast
      obtain r where r: "path_resolve wd [JStr (appPath pp), JStr s] = Inr r"
        using path_resolve_strings by blast
      show ?thesis using str [OF s r, of e] that(1) by simp
    qed
  qed
  have third: "getModules h pp = (files, Inl UnsupportedBaseUrlError)"
    if "\<not> (existsSync h (appTsConfig pp) \<and> existsSync h (appJsConfig pp))
        \<and> loadConfig h pp (existsSync h (appTsConfig pp)) (existsSync h (appJsConfig pp))
            = (files, Inr config)
        \<and> get_prop (js_or config (JObj [])) ''compilerOptions'' = Inr co
        \<and> getAdditionalModulePaths pp (cwd h) (js_or co (JObj [])) = Inl UnsupportedBaseUrlError"
    for files config co
    using that by (intro getModules_gamp_error) auto
  have fourth: "getAdditionalModulePaths pp wd options = Inl TypeError \<longleftrightarrow>
            options = JNull
            \<or> (\<exists>b. ?g = Inr b \<and> truthy b \<and> (\<forall>s. b \<noteq> JStr s))"
    using ok by (rule gamp_type_error)
  have fifth: "e = UnsupportedBaseUrlError \<or> e = TypeError"
    if "getAdditionalModulePaths pp wd options = Inl e" for e
    using ok that by (rule gamp_error_kinds)
  have a: "\<forall>e. getAdditionalModulePaths pp wd options = Inl e
             \<and> (?g = Inr JUndefined \<or> (\<exists>s. ?g = Inr (JStr s)))
             \<longrightarrow> e = UnsupportedBaseUrlError"
    using second by blast
  have b: "\<forall>files config co.
             \<not> (existsSync h (appTsConfig pp) \<and> existsSync h (appJsConfig pp))
             \<and> loadConfig h pp (existsSync h (appTsConfig pp)) (existsSync h (appJsConfig pp))
                 = (files, Inr config)
             \<and> get_prop (js_or config (JObj [])) ''compilerOptions'' = Inr co
             \<and> getAdditionalModulePaths pp (cwd h) (js_or co (JObj [])) = Inl UnsupportedBaseUrlError
             \<longrightarrow> getModules h pp = (files, Inl UnsupportedBaseUrlError)"
    using third by blast
  have c: "\<forall>e. getAdditionalModulePaths pp wd options = Inl e \<longrightarrow>
             e = UnsupportedBaseUrlError \<or> e = TypeError"
    using fifth by blast
  from first a b fourth c show ?thesis by (intro conjI)
qed

theorem unsupported_baseUrl_witness:
  "project_dirs_ok sample_paths
   \<and> getAdditionalModulePaths sample_paths ''/home''
        (JObj [(''baseUrl'', JStr ''./packages/shared'')]) = Inl UnsupportedBaseUrlError
   \<and> getModules
        (json_host [(''/app/tsconfig.json'',
           JObj [(''compilerOptions'', JObj [(''baseUrl'', JStr ''./packages/shared'')])])])
        sample_paths
       = ([''/app/tsconfig.json''], Inl UnsupportedBaseUrlError)"
proof -
  let ?co = "JObj [(''baseUrl'', JStr ''./packages/shared'')]"
  let ?config = "JObj [(''compilerOptions'', ?co)]"
  let ?h = "json_host [(''/app/tsconfig.json'', ?config)]"
  note inst = unsupported_baseUrl [OF sample_paths_ok, of "''/home''" ?co ?h]
  have b: "get_prop (default_arg ?co (JObj [])) ''baseUrl'' = Inr (JStr ''./packages/shared'')"
    by (simp add: default_arg_def)
  have r: "path_resolve ''/home'' [JStr (appPath sample_paths), JStr ''./packages/shared'']
             = Inr ''/app/packages/shared''"
    by (simp add: sample_paths_def path_resolve_def resolve_segs_def thenE_def)
  have out: "''/app/packages/shared'' \<noteq> appNodeModules sample_paths
             \<and> ''/app/packages/shared'' \<noteq> appSrc sample_paths
             \<and> ''/app/packages/shared'' \<noteq> appPath sample_paths"
    by (simp add: sample_paths_def)
  have g: "getAdditionalModulePaths sample_paths ''/home'' ?co = Inl UnsupportedBaseUrlError"
    using inst b r out by blast
  have ex: "\<not> (existsSync ?h (appTsConfig sample_paths) \<and> existsSync ?h (appJsConfig sample_paths))"
    by (simp add: json_host_def sample_paths_def)
  have ld: "loadConfig ?h sample_paths (existsSync ?h (appTsConfig sample_paths))
              (existsSync ?h (appJsConfig sample_paths)) = ([''/app/tsconfig.json''], Inr ?config)"
    by (simp add: loadConfig_def mergeExtends_def json_host_def sample_paths_def)
  have co: "get_prop (js_or ?config (JObj [])) ''compilerOptions'' = Inr ?co"
    by (simp add: js_or_def)
  have g': "getAdditionalModulePaths sample_paths (cwd ?h) (js_or ?co (JObj []))
              = Inl UnsupportedBaseUrlError"
    using g by (simp add: js_or_def json_host_def)
  have "getModules ?h sample_paths = ([''/app/tsconfig.json''], Inl UnsupportedBaseUrlError)"
    using inst ex ld co g' by blast
  with g sample_paths_ok show ?thesis by simp
qed

text \<open>
  A \<open>baseUrl\<close> that is the number 1: \<open>path.resolve\<close> throws a TypeError, so the
  function throws although no resolution of \<open>baseUrl\<close> lies outside the three
  directories, and \<open>getModules\<close> on such a configuration ends with that TypeError.
\<close>

theorem getAdditionalModulePaths_number_baseUrl_counterexample:
  "get_prop (default_arg (JObj [(''baseUrl'', JNum 1)]) (JObj [])) ''baseUrl'' = Inr (JNum 1)
   \<and> getAdditionalModulePaths sample_paths ''/home'' (JObj [(''baseUrl'', JNum 1)])
       = Inl TypeError
   \<and> getAdditionalModulePaths sample_paths ''/home'' (JObj [(''baseUrl'', JNum 1)])
       \<noteq> Inl UnsupportedBaseUrlError
   \<and> getModules
        (json_host [(''/app/tsconfig.json'',
           JObj [(''compilerOptions'', JObj [(''baseUrl'', JNum 1)])])])
        sample_paths
       = ([''/app/tsconfig.json''], Inl TypeError)"
  by code_simp

subsection \<open>getJestAliases\<close>

text \<open>
  Claim C9, as the code has it. A \<open>baseUrl\<close> that is absent or falsy (the empty
  string among them) gives the empty mapping; a non-empty \<open>baseUrl\<close> string gives
  the one-entry mapping from \<open>^src/(.*)$\<close> to \<open><rootDir>/src/$1\<close> when it resolves
  to the project root and \<open>undefined\<close> when it resolves anywhere else.
\<close>

theorem jest_aliases_by_baseUrl:
  assumes "project_dirs_ok pp"
    and "get_prop (default_arg options (JObj [])) ''baseUrl'' = Inr b"
  shows "(\<not> truthy b \<longrightarrow> getJestAliases pp wd options = Inr (JObj []))
       \<and> (\<forall>s r. b = JStr s \<and> s \<noteq> [] \<and> path_resolve wd [JStr (appPath pp), JStr s] = Inr r \<longrightarrow>
            getJestAliases pp wd options =
              (if r = appPath pp then Inr (JObj [(''^src/(.*)$'', JStr ''<rootDir>/src/$1'')])
               else Inr JUndefined))"
proof (intro conjI allI impI)
  assume "\<not> truthy b"
  then show "getJestAliases pp wd options = Inr (JObj [])"
    using assms(2) by (simp add: getJestAliases_def thenE_def)
next
  fix s r
  assume h: "b = JStr s \<and> s \<noteq> [] \<and> path_resolve wd [JStr (appPath pp), JStr s] = Inr r"
  obtain x where x: "path_relative wd (JStr (appPath pp)) (JStr r) = Inr x"
    using path_relative_string by blast
  from h have r: "path_resolve wd [JStr (appPath pp), JStr s] = Inr r" by simp
  have "x = [] \<longleftrightarrow> r = appPath pp"
    using path_relative_resolved [OF _ r, of "[]" "appPath pp"] assms(1) x
    by (simp add: project_dirs_ok_def)
  then show "getJestAliases pp wd options =
              (if r = appPath pp then Inr (JObj [(''^src/(.*)$'', JStr ''<rootDir>/src/$1'')])
               else Inr JUndefined)"
    using h x assms(2) by (simp add: getJestAliases_def thenE_def)
qed

theorem jest_aliases_by_baseUrl_witness:
  "project_dirs_ok sample_paths
   \<and> getJestAliases sample_paths ''/home'' (JObj []) = Inr (JObj [])
   \<and> getJestAliases sample_paths ''/home'' (JObj [(''baseUrl'', JStr ''.'')])
       = Inr (JObj [(''^src/(.*)$'', JStr ''<rootDir>/src/$1'')])
   \<and> getJestAliases sample_paths ''/home'' (JObj [(''baseUrl'', JStr ''src'')]) = Inr JUndefined"
proof -
  have absent: "get_prop (default_arg (JObj []) (JObj [])) ''baseUrl'' = Inr JUndefined"
    by (simp add: default_arg_def)
  have b: "get_prop (default_arg (JObj [(''baseUrl'', JStr s)]) (JObj [])) ''baseUrl'' = Inr (JStr s)"
    for s by (simp add: default_arg_def)
  have r1: "path_resolve ''/home'' [JStr (appPath sample_paths), JStr ''.'']
              = Inr (appPath sample_paths)"
    by (simp add: sample_paths_def path_resolve_def resolve_segs_def thenE_def)
  have r2: "path_resolve ''/home'' [JStr (appPath sample_paths), JStr ''src''] = Inr ''/app/src''"
    by (simp add: sample_paths_def path_resolve_def resolve_segs_def thenE_def)
  have "getJestAliases sample_paths ''/home'' (JObj []) = Inr (JObj [])"
    using jest_aliases_by_baseUrl [OF sample_paths_ok absent] by simp
  moreover have "getJestAliases sample_paths ''/home'' (JObj [(''baseUrl'', JStr ''.'')])
       = Inr (JObj [(''^src/(.*)$'', JStr ''<rootDir>/src/$1'')])"
    using jest_aliases_by_baseUrl [OF sample_paths_ok b, of "''.''" "''/home''"] r1 by simp
  moreover have "getJestAliases sample_paths ''/home'' (JObj [(''baseUrl'', JStr ''src'')])
       = Inr JUndefined"
    using jest_aliases_by_baseUrl [OF sample_paths_ok b, of "''src''" "''/home''"] r2
    by (simp add: sample_paths_def)
  ultimately show ?thesis using sample_paths_ok by simp
qed

text \<open>
  The empty string is a \<open>baseUrl\<close> that resolves to the project root, and the
  result for it is the empty mapping, not the \<open>src\<close> pattern.
\<close>

theorem getJestAliases_empty_baseUrl_counterexample:
  "path_resolve ''/home'' [JStr (appPath sample_paths), JStr ''''] = Inr (appPath sample_paths)
   \<and> getJestAliases sample_paths ''/home'' (JObj [(''baseUrl'', JStr '''')]) = Inr (JObj [])
   \<and> getJestAliases sample_paths ''/home'' (JObj [(''baseUrl'', JStr '''')])
       \<noteq> Inr (JObj [(''^src/(.*)$'', JStr ''<rootDir>/src/$1'')])"
  by (simp add: getJestAliases_def thenE_def default_arg_def sample_paths_def
      path_resolve_def resolve_segs_def)

subsection \<open>getModules\<close>

text \<open>
  Claim C10. When both the TypeScript and the JavaScript configuration file exist,
  \<open>getModules\<close> throws the conflicting-configuration error: no file has been loaded
  (the list of loaded files is empty) and no bundle is returned.
\<close>

theorem conflicting_configs:
  assumes "existsSync h (appTsConfig pp)" and "existsSync h (appJsConfig pp)"
  shows "getModules h pp = ([], Inl ConflictingConfigError)"
  using assms by (simp add: getModules_def)

theorem conflicting_configs_witness:
  "existsSync (json_host [(''/app/tsconfig.json'', JObj []), (''/app/jsconfig.json'', JObj [])])
     (appTsConfig sample_paths)
   \<and> existsSync (json_host [(''/app/tsconfig.json'', JObj []), (''/app/jsconfig.json'', JObj [])])
       (appJsConfig sample_paths)
   \<and> getModules (json_host [(''/app/tsconfig.json'', JObj []), (''/app/jsconfig.json'', JObj [])])
       sample_paths = ([], Inl ConflictingConfigError)"
proof -
  let ?h = "json_host [(''/app/tsconfig.json'', JObj []), (''/app/jsconfig.json'', JObj [])]"
  have t: "existsSync ?h (appTsConfig sample_paths)"
    by (simp add: json_host_def sample_paths_def)
  have j: "existsSync ?h (appJsConfig sample_paths)"
    by (simp add: json_host_def sample_paths_def)
  from t j conflicting_configs [OF t j] show ?thesis by simp
qed

text \<open>
  Claim C6. For a configuration whose \<open>extends\<close> is absent (or falsy), the merge
  step of \<open>getModules\<close> does not call \<open>readConfig\<close>: it loads no parent and
  returns the configuration as it was loaded, in the TypeScript branch and in the
  JavaScript branch; applied to its own result it returns that result again.
\<close>

theorem merge_without_extends:
  assumes "get_prop config ''extends'' = Inr e" and "\<not> truthy e"
  shows "mergeExtends h pp config file = ([], Inr config)
       \<and> (\<forall>files c'. mergeExtends h pp config file = (files, Inr c') \<longrightarrow>
            mergeExtends h pp c' file = (files, Inr c'))
       \<and> (tsReadConfig h (appNodeModules pp) (appTsConfig pp) = Inr config \<longrightarrow>
            loadConfig h pp True hasJs = ([appTsConfig pp], Inr config))
       \<and> (require h (appJsConfig pp) = Inr config \<longrightarrow>
            loadConfig h pp False True = ([appJsConfig pp], Inr config))"
  using assms by (auto simp: mergeExtends_def loadConfig_def)

theorem merge_without_extends_witness:
  "loadConfig
     (json_host [(''/app/jsconfig.json'',
        JObj [(''compilerOptions'', JObj [(''paths'', JObj [(''lib/*'', JArr [JStr ''./src/lib/*''])])])])])
     sample_paths False True
   = ([''/app/jsconfig.json''],
      Inr (JObj [(''compilerOptions'', JObj [(''paths'', JObj [(''lib/*'', JArr [JStr ''./src/lib/*''])])])]))"
proof -
  let ?config = "JObj [(''compilerOptions'', JObj [(''paths'', JObj [(''lib/*'', JArr [JStr ''./src/lib/*''])])])]"
  let ?h = "json_host [(''/app/jsconfig.json'', ?config)]"
  have e: "get_prop ?config ''extends'' = Inr JUndefined" by simp
  have f: "\<not> truthy JUndefined" by simp
  have l: "require ?h (appJsConfig sample_paths) = Inr ?config"
    by (simp add: json_host_def sample_paths_def)
  from merge_without_extends [OF e f, of ?h sample_paths] l
  show ?thesis by (simp add: sample_paths_def)
qed

subsection \<open>getWebpackAliases\<close>

lemma gwa_type_error:
  assumes "get_prop (default_arg options (JObj [])) ''baseUrl'' = Inr b" and "truthy b"
    and "get_prop (default_arg options (JObj [])) ''paths'' = Inr p"
    and "\<forall>a. get_prop p ''appPath'' \<noteq> Inr (JStr a)"
  shows "getWebpackAliases pp wd options = Inl TypeError"
proof (cases "get_prop p ''appPath''")
  case (Inl e)
  then have "e = TypeError" by (cases p) auto
  with Inl assms show ?thesis by (simp add: getWebpackAliases_def thenE_def)
next
  case (Inr root)
  with assms(4) have nr: "\<forall>a. root \<noteq> JStr a" by simp
  have "path_resolve wd [root, b] = Inl TypeError \<or> (\<exists>r. path_resolve wd [root, b] = Inr r)"
    using nr assms(2) by (cases b; cases root) (auto simp: path_resolve_def resolve_segs_def thenE_def)
  moreover have "path_relative wd root (JStr r) = Inl TypeError" for r
    using nr by (cases root) (auto simp: path_relative_def)
  ultimately show ?thesis
    using Inr assms by (auto simp: getWebpackAliases_def thenE_def)
qed

lemma gwa_string_root:
  assumes "get_prop (default_arg options (JObj [])) ''baseUrl'' = Inr (JStr s)" and "s \<noteq> []"
    and "get_prop (default_arg options (JObj [])) ''paths'' = Inr p"
    and "get_prop p ''appPath'' = Inr (JStr a)"
    and "path_resolve wd [JStr a, JStr s] = Inr r"
  shows "\<exists>src. get_prop p ''appSrc'' = Inr src
           \<and> getWebpackAliases pp wd options =
               (if path_relative wd (JStr a) (JStr r) = Inr []
                then Inr (JObj (spread_into [(''src'', src)] p))
                else Inr JUndefined)"
proof -
  obtain src where src: "get_prop p ''appSrc'' = Inr src"
    using assms(4) by (cases p) auto
  obtain x where x: "path_relative wd (JStr a) (JStr r) = Inr x"
    using path_relative_string by blast
  show ?thesis
    using assms src x by (auto simp: getWebpackAliases_def thenE_def)
qed

text \<open>Without a \<open>baseUrl\<close> the supplied table, when there is one, is the result.\<close>

lemma gwa_without_baseUrl:
  assumes "get_prop (default_arg options (JObj [])) ''baseUrl'' = Inr b" and "\<not> truthy b"
    and "get_prop (default_arg options (JObj [])) ''paths'' = Inr p"
  shows "getWebpackAliases pp wd options = (if truthy p then Inr p else Inr (JObj []))"
  using assms by (simp add: getWebpackAliases_def thenE_def)

text \<open>
  Claim C3 at a \<open>baseUrl\<close> that resolves to the project root, with a paths table
  beside it: the call throws a TypeError instead of returning the table under
  \<open>src\<close>, because \<open>paths.appPath\<close> is read from the table; and \<open>getModules\<close>
  on a project with these compiler options ends with that TypeError.
\<close>

theorem getWebpackAliases_root_baseUrl_type_error:
  "path_resolve ''/home'' [JStr (appPath sample_paths), JStr ''.''] = Inr (appPath sample_paths)
   \<and> getWebpackAliases sample_paths ''/home''
        (JObj [(''baseUrl'', JStr ''.''),
               (''paths'', JObj [(''@app/*'', JArr [JStr ''src/app/*''])])])
       = Inl TypeError
   \<and> getModules
        (json_host [(''/app/tsconfig.json'',
           JObj [(''compilerOptions'',
              JObj [(''baseUrl'', JStr ''.''),
                    (''paths'', JObj [(''@app/*'', JArr [JStr ''src/app/*''])])])])])
        sample_paths
       = ([''/app/tsconfig.json''], Inl TypeError)"
  by code_simp

text \<open>
  Claim C4. With a truthy \<open>baseUrl\<close>, \<open>getWebpackAliases\<close> takes the root from the
  \<open>appPath\<close> property of the \<open>paths\<close> value of the options: when that property is
  not a string the call throws a TypeError; when it is a string \<open>a\<close> and \<open>baseUrl\<close>
  is a string, the result is decided by resolving \<open>baseUrl\<close> against \<open>a\<close>, and the
  table returned has the \<open>appSrc\<close> property of the same value under \<open>src\<close>. The
  project paths play no part in the result.
\<close>

theorem webpack_aliases_read_supplied_paths:
  assumes "get_prop (default_arg options (JObj [])) ''baseUrl'' = Inr b" and "truthy b"
    and "get_prop (default_arg options (JObj [])) ''paths'' = Inr p"
  shows "((\<forall>a. get_prop p ''appPath'' \<noteq> Inr (JStr a)) \<longrightarrow>
            getWebpackAliases pp wd options = Inl TypeError)
       \<and> (\<forall>a s r. get_prop p ''appPath'' = Inr (JStr a) \<and> b = JStr s
             \<and> path_resolve wd [JStr a, JStr s] = Inr r \<longrightarrow>
            (\<exists>src. get_prop p ''appSrc'' = Inr src
               \<and> getWebpackAliases pp wd options =
                   (if path_relative wd (JStr a) (JStr r) = Inr []
                    then Inr (JObj (spread_into [(''src'', src)] p))
                    else Inr JUndefined)))
       \<and> (\<forall>pp'. getWebpackAliases pp' wd options = getWebpackAliases pp wd options)"
proof (intro conjI allI impI)
  assume "\<forall>a. get_prop p ''appPath'' \<noteq> Inr (JStr a)"
  with assms show "getWebpackAliases pp wd options = Inl TypeError"
    by (rule gwa_type_error)
next
  fix a s r
  assume h: "get_prop p ''appPath'' = Inr (JStr a) \<and> b = JStr s
             \<and> path_resolve wd [JStr a, JStr s] = Inr r"
  with assms(2) have "s \<noteq> []" by auto
  with h assms show "\<exists>src. get_prop p ''appSrc'' = Inr src
               \<and> getWebpackAliases pp wd options =
                   (if path_relative wd (JStr a) (JStr r) = Inr []
                    then Inr (JObj (spread_into [(''src'', src)] p))
                    else Inr JUndefined)"
    by (intro gwa_string_root) auto
next
  fix pp'
  show "getWebpackAliases pp' wd options = getWebpackAliases pp wd options"
    by (simp add: getWebpackAliases_def)
qed

theorem webpack_aliases_read_supplied_paths_witness:
  "getWebpackAliases sample_paths ''/home''
     (JObj [(''baseUrl'', JStr ''src''), (''paths'', JObj [(''lib'', JStr ''/app/src/lib'')])])
     = Inl TypeError
   \<and> getWebpackAliases sample_paths ''/home''
       (JObj [(''baseUrl'', JStr ''.''),
              (''paths'', JObj [(''appPath'', JStr ''/elsewhere''), (''appSrc'', JStr ''/other'')])])
     = Inr (JObj [(''src'', JStr ''/other''), (''appPath'', JStr ''/elsewhere''),
                  (''appSrc'', JStr ''/other'')])"
proof -
  let ?p1 = "JObj [(''lib'', JStr ''/app/src/lib'')]"
  let ?o1 = "JObj [(''baseUrl'', JStr ''src''), (''paths'', ?p1)]"
  let ?p2 = "JObj [(''appPath'', JStr ''/elsewhere''), (''appSrc'', JStr ''/other'')]"
  let ?o2 = "JObj [(''baseUrl'', JStr ''.''), (''paths'', ?p2)]"
  have b1: "get_prop (default_arg ?o1 (JObj [])) ''baseUrl'' = Inr (JStr ''src'')"
    by (simp add: default_arg_def)
  have p1: "get_prop (default_arg ?o1 (JObj [])) ''paths'' = Inr ?p1"
    by (simp add: default_arg_def)
  have n1: "\<forall>a. get_prop ?p1 ''appPath'' \<noteq> Inr (JStr a)" by simp
  have t1: "truthy (JStr ''src'')" by simp
  have first: "getWebpackAliases sample_paths ''/home'' ?o1 = Inl TypeError"
    using webpack_aliases_read_supplied_paths [OF b1 t1 p1, of sample_paths "''/home''"] n1
    by blast
  have b2: "get_prop (default_arg ?o2 (JObj [])) ''baseUrl'' = Inr (JStr ''.'')"
    by (simp add: default_arg_def)
  have p2: "get_prop (default_arg ?o2 (JObj [])) ''paths'' = Inr ?p2"
    by (simp add: default_arg_def)
  have t2: "truthy (JStr ''.'')" by simp
  have a2: "get_prop ?p2 ''appPath'' = Inr (JStr ''/elsewhere'')" by simp
  have r2: "path_resolve ''/home'' [JStr ''/elsewhere'', JStr ''.''] = Inr ''/elsewhere''"
    by (simp add: path_resolve_def resolve_segs_def thenE_def)
  have rel: "path_relative ''/home'' (JStr ''/elsewhere'') (JStr ''/elsewhere'') = Inr []"
    by (simp add: path_relative_def)
  have sp: "spread_into [(''src'', JStr ''/other'')] ?p2
              = [(''src'', JStr ''/other''), (''appPath'', JStr ''/elsewhere''),
                 (''appSrc'', JStr ''/other'')]"
    by (simp add: spread_into_def obj_set_def array_index_def is_digit_def)
  have "\<exists>src. get_prop ?p2 ''appSrc'' = Inr src
           \<and> getWebpackAliases sample_paths ''/home'' ?o2 =
               (if path_relative ''/home'' (JStr ''/elsewhere'') (JStr ''/elsewhere'') = Inr []
                then Inr (JObj (spread_into [(''src'', src)] ?p2))
                else Inr JUndefined)"
    using webpack_aliases_read_supplied_paths [OF b2 t2 p2, of sample_paths "''/home''"] a2 r2
    by blast
  then have "getWebpackAliases sample_paths ''/home'' ?o2
               = Inr (JObj (spread_into [(''src'', JStr ''/other'')] ?p2))"
    using rel by auto
  with first sp show ?thesis by simp
qed

subsection \<open>Objects\<close>

lemma obj_lookup_None: "obj_lookup kvs k = None \<longleftrightarrow> k \<notin> fst ` set kvs"
  by (induction kvs) (auto split: option.splits)

lemma obj_lookup_in_set: "obj_lookup kvs k = Some v \<Longrightarrow> (k, v) \<in> set kvs"
  by (induction kvs) (auto split: option.splits if_splits)

lemma obj_lookup_append:
  "obj_lookup (xs @ ys) k = (case obj_lookup ys k of Some v \<Rightarrow> Some v | None \<Rightarrow> obj_lookup xs k)"
  by (induction xs) (auto split: option.splits)

lemma obj_lookup_insert_index:
  "obj_lookup kvs k = None \<Longrightarrow>
   obj_lookup (insert_index i (k, v) kvs) k' = (if k' = k then Some v else obj_lookup kvs k')"
proof (induction kvs)
  case Nil
  then show ?case by simp
next
  case (Cons kv kvs)
  obtain a b where kv: "kv = (a, b)" by (cases kv)
  from Cons.prems kv have n: "obj_lookup kvs k = None" and ne: "a \<noteq> k"
    by (auto split: option.splits if_splits)
  from Cons.IH [OF n] kv n ne show ?case
    by (auto split: option.splits)
qed

lemma obj_lookup_replace:
  "k \<in> fst ` set kvs \<Longrightarrow>
   obj_lookup (map (\<lambda>kv. if fst kv = k then (k, v) else kv) kvs) k' =
     (if k' = k then Some v else obj_lookup kvs k')"
proof (induction kvs)
  case Nil
  then show ?case by simp
next
  case (Cons kv kvs)
  show ?case
  proof (cases "k \<in> fst ` set kvs")
    case True
    with Cons.IH show ?thesis by (cases kv) (auto split: option.splits)
  next
    case False
    then have same: "map (\<lambda>kv. if fst kv = k then (k, v) else kv) kvs = kvs"
      by (induction kvs) auto
    from False have "obj_lookup kvs k = None" by (simp add: obj_lookup_None)
    with False Cons.prems same show ?thesis by (cases kv) (auto split: option.splits)
  qed
qed

lemma obj_lookup_obj_set:
  "obj_lookup (obj_set kvs k v) k' = (if k' = k then Some v else obj_lookup kvs k')"
proof (cases "k \<in> fst ` set kvs")
  case True
  then show ?thesis by (simp add: obj_set_def obj_lookup_replace)
next
  case False
  then have "obj_lookup kvs k = None" by (simp add: obj_lookup_None)
  with False show ?thesis
    by (auto simp: obj_set_def obj_lookup_append obj_lookup_insert_index split: option.splits)
qed

lemma obj_lookup_foldl_set:
  "obj_lookup (foldl (\<lambda>acc kv. obj_set acc (fst kv) (snd kv)) target kvs) k =
     (case obj_lookup kvs k of Some v \<Rightarrow> Some v | None \<Rightarrow> obj_lookup target k)"
  by (induction kvs arbitrary: target) (auto simp: obj_lookup_obj_set split: option.splits)

text \<open>After a spread the copied properties win over those already there.\<close>

lemma obj_lookup_spread:
  "obj_lookup (spread_into target v) k =
     (case obj_lookup (own_entries v) k of Some w \<Rightarrow> Some w | None \<Rightarrow> obj_lookup target k)"
  by (simp add: spread_into_def obj_lookup_foldl_set)

lemma spread_falsy: "\<not> truthy v \<Longrightarrow> spread_into target v = target"
  by (cases v) (auto simp: spread_into_def)

subsection \<open>configPathsRaw\<close>

lemma paths_or_empty_value:
  assumes "c \<noteq> JUndefined" and "c \<noteq> JNull"
  shows "paths_or_empty c = Inr (js_or (compilerOptions_paths c) (JObj []))"
proof -
  obtain co where co: "get_prop c ''compilerOptions'' = Inr co"
    using assms by (cases c) auto
  show ?thesis
  proof (cases "truthy co")
    case True
    then obtain p where "get_prop co ''paths'' = Inr p" by (cases co) auto
    with co True show ?thesis
      by (simp add: paths_or_empty_def compilerOptions_paths_def thenE_def js_or_def)
  next
    case False
    then have "compilerOptions_paths c = JUndefined"
      using co by (cases co) (auto simp: compilerOptions_paths_def array_index_def)
    with co False show ?thesis
      by (simp add: paths_or_empty_def thenE_def js_or_def)
  qed
qed

lemma compilerOptions_paths_nullish:
  "c = JUndefined \<or> c = JNull \<Longrightarrow> compilerOptions_paths c = JUndefined"
  by (auto simp: compilerOptions_paths_def)

lemma paths_or_empty_extends:
  "paths_or_empty (js_or e (JObj [])) = Inr (js_or (compilerOptions_paths e) (JObj []))"
proof (cases "truthy e")
  case True
  then have "e \<noteq> JUndefined" "e \<noteq> JNull" by auto
  with True show ?thesis by (simp add: js_or_def paths_or_empty_value)
next
  case False
  then have "compilerOptions_paths e = JUndefined"
    by (cases e) (auto simp: compilerOptions_paths_def array_index_def)
  with False show ?thesis
    by (simp add: js_or_def paths_or_empty_def thenE_def)
qed

text \<open>What \<open>configPathsRaw\<close> computes from the two \<open>paths\<close> values.\<close>

lemma configPathsRaw_value:
  assumes "conf \<noteq> JUndefined" and "conf \<noteq> JNull"
  shows "configPathsRaw conf =
     (let p = js_or (compilerOptions_paths conf) (JObj []);
          q = js_or (compilerOptions_paths (extends_of conf)) (JObj [])
      in if \<not> typeof_object p then Inl CompilerPathsNotObject
         else if \<not> typeof_object q then Inl ExtendsPathsNotObject
         else Inr (JObj (spread_into (spread_into [] p) q)))"
proof -
  obtain e where e: "get_prop conf ''extends'' = Inr e"
    using assms by (cases conf) auto
  then have "extends_of conf = e" by (simp add: extends_of_def)
  with e assms show ?thesis
    by (simp add: configPathsRaw_def thenE_def paths_or_empty_value paths_or_empty_extends Let_def)
qed

lemma compilerOptions_paths_object:
  "compilerOptions_paths c = JObj m \<Longrightarrow> c \<noteq> JUndefined \<and> c \<noteq> JNull"
  by (auto simp: compilerOptions_paths_def)

text \<open>
  Claim C5. When the child's and the parent's \<open>compilerOptions.paths\<close> are both
  mappings, \<open>configPathsRaw\<close> returns the child's entries overlaid with the parent's:
  a key present in both has the parent's value, and a key the parent does not have
  keeps the child's.
\<close>

theorem parent_paths_win:
  assumes "compilerOptions_paths conf = JObj cp"
    and "compilerOptions_paths (extends_of conf) = JObj ep"
  shows "configPathsRaw conf = Inr (JObj (spread_into (spread_into [] (JObj cp)) (JObj ep)))
       \<and> (\<forall>k c v. obj_lookup cp k = Some c \<and> obj_lookup ep k = Some v \<longrightarrow>
             get_prop (JObj (spread_into (spread_into [] (JObj cp)) (JObj ep))) k = Inr v)
       \<and> (\<forall>k. obj_lookup ep k = None \<longrightarrow>
             obj_lookup (spread_into (spread_into [] (JObj cp)) (JObj ep)) k = obj_lookup cp k)"
proof -
  from assms(1) have "conf \<noteq> JUndefined" "conf \<noteq> JNull"
    using compilerOptions_paths_object by blast+
  then have "configPathsRaw conf = Inr (JObj (spread_into (spread_into [] (JObj cp)) (JObj ep)))"
    using assms by (simp add: configPathsRaw_value js_or_def)
  moreover have "obj_lookup (spread_into (spread_into [] (JObj cp)) (JObj ep)) k =
                   (case obj_lookup ep k of Some v \<Rightarrow> Some v | None \<Rightarrow> obj_lookup cp k)" for k
    by (simp add: obj_lookup_spread split: option.splits)
  ultimately show ?thesis by simp
qed

theorem parent_paths_win_witness:
  "configPathsRaw
     (JObj [(''compilerOptions'',
               JObj [(''paths'', JObj [(''utils/*'', JArr [JStr ''./src/utils/*'']),
                                       (''app/*'', JArr [JStr ''./src/app/*''])])]),
            (''extends'',
               JObj [(''compilerOptions'',
                  JObj [(''paths'', JObj [(''utils/*'', JArr [JStr ''./shared/utils/*''])])])])])
   = Inr (JObj [(''utils/*'', JArr [JStr ''./shared/utils/*'']),
                (''app/*'', JArr [JStr ''./src/app/*''])])"
proof -
  let ?cp = "[(''utils/*'', JArr [JStr ''./src/utils/*'']), (''app/*'', JArr [JStr ''./src/app/*''])]"
  let ?ep = "[(''utils/*'', JArr [JStr ''./shared/utils/*''])]"
  let ?ext = "JObj [(''compilerOptions'', JObj [(''paths'', JObj ?ep)])]"
  let ?conf = "JObj [(''compilerOptions'', JObj [(''paths'', JObj ?cp)]), (''extends'', ?ext)]"
  have c: "compilerOptions_paths ?conf = JObj ?cp"
    by (simp add: compilerOptions_paths_def)
  have e: "compilerOptions_paths (extends_of ?conf) = JObj ?ep"
    by (simp add: compilerOptions_paths_def extends_of_def)
  have sp: "spread_into (spread_into [] (JObj ?cp)) (JObj ?ep)
              = [(''utils/*'', JArr [JStr ''./shared/utils/*'']),
                 (''app/*'', JArr [JStr ''./src/app/*''])]"
    by (simp add: spread_into_def obj_set_def array_index_def is_digit_def)
  from parent_paths_win [OF c e] sp show ?thesis by simp
qed

text \<open>
  Claim C8, as the code has it. \<open>configPathsRaw\<close> throws its first error exactly
  when the child's \<open>compilerOptions.paths\<close> is truthy and not of type object (a
  non-empty string, a number other than zero, \<open>true\<close>), and its second error
  exactly when the child's value passes and the parent's is truthy and not of type
  object. In every other case (a mapping, an array, an absent, \<open>null\<close> or other
  falsy value on each side) it returns a merged mapping.
\<close>

theorem invalid_paths_error:
  "(configPathsRaw (JObj c) = Inl CompilerPathsNotObject \<longleftrightarrow>
      truthy (compilerOptions_paths (JObj c)) \<and> \<not> typeof_object (compilerOptions_paths (JObj c)))
   \<and> (configPathsRaw (JObj c) = Inl ExtendsPathsNotObject \<longleftrightarrow>
        \<not> (truthy (compilerOptions_paths (JObj c))
           \<and> \<not> typeof_object (compilerOptions_paths (JObj c)))
        \<and> truthy (compilerOptions_paths (extends_of (JObj c)))
        \<and> \<not> typeof_object (compilerOptions_paths (extends_of (JObj c))))
   \<and> ((\<exists>m. configPathsRaw (JObj c) = Inr (JObj m)) \<longleftrightarrow>
        \<not> (truthy (compilerOptions_paths (JObj c))
           \<and> \<not> typeof_object (compilerOptions_paths (JObj c)))
        \<and> \<not> (truthy (compilerOptions_paths (extends_of (JObj c)))
           \<and> \<not> typeof_object (compilerOptions_paths (extends_of (JObj c)))))"
proof -
  have t: "typeof_object (js_or v (JObj [])) \<longleftrightarrow> \<not> (truthy v \<and> \<not> typeof_object v)" for v
    by (cases v) (auto simp: js_or_def)
  show ?thesis
    by (auto simp: configPathsRaw_value Let_def t)
qed

theorem invalid_paths_error_witness:
  "configPathsRaw (JObj [(''compilerOptions'', JObj [(''paths'', JStr ''src'')]),
                         (''extends'', JObj [])]) = Inl CompilerPathsNotObject
   \<and> configPathsRaw (JObj [(''compilerOptions'', JObj [(''paths'', JObj [])]),
                           (''extends'', JObj [(''compilerOptions'',
                               JObj [(''paths'', JNum 1)])])]) = Inl ExtendsPathsNotObject"
proof -
  let ?c1 = "[(''compilerOptions'', JObj [(''paths'', JStr ''src'')]), (''extends'', JObj [])]"
  let ?c2 = "[(''compilerOptions'', JObj [(''paths'', JObj [])]),
              (''extends'', JObj [(''compilerOptions'', JObj [(''paths'', JNum 1)])])]"
  have p1: "compilerOptions_paths (JObj ?c1) = JStr ''src''"
    by (simp add: compilerOptions_paths_def)
  have p2: "compilerOptions_paths (JObj ?c2) = JObj []"
    by (simp add: compilerOptions_paths_def)
  have q2: "compilerOptions_paths (extends_of (JObj ?c2)) = JNum 1"
    by (simp add: compilerOptions_paths_def extends_of_def)
  have "configPathsRaw (JObj ?c1) = Inl CompilerPathsNotObject"
    using invalid_paths_error [of ?c1] p1 by simp
  moreover have "configPathsRaw (JObj ?c2) = Inl ExtendsPathsNotObject"
    using invalid_paths_error [of ?c2] p2 q2 by simp
  ultimately show ?thesis by simp
qed

text \<open>
  A \<open>compilerOptions.paths\<close> that is present and is \<open>false\<close>, not a mapping, raises
  no error: it is taken for an empty mapping.
\<close>

theorem configPathsRaw_false_paths_counterexample:
  "get_prop (JObj [(''paths'', JBool False)]) ''paths'' = Inr (JBool False)
   \<and> configPathsRaw (JObj [(''compilerOptions'', JObj [(''paths'', JBool False)]),
                           (''extends'', JObj [])]) = Inr (JObj [])"
  by (simp add: configPathsRaw_def paths_or_empty_def thenE_def js_or_def spread_into_def)

subsection \<open>readConfig\<close>

lemma array_index_extends [simp]: "array_index ''extends'' = None"
  by (simp add: array_index_def is_digit_def)

lemma array_index_compilerOptions [simp]: "array_index ''compilerOptions'' = None"
  by (simp add: array_index_def is_digit_def)

lemma with_parent_paths:
  "compilerOptions_paths (JObj (obj_set (spread_into [] (JObj c)) ''extends'' parent))
     = compilerOptions_paths (JObj c)"
  by (simp add: compilerOptions_paths_def obj_lookup_obj_set obj_lookup_spread split: option.splits)

lemma with_parent_extends:
  "extends_of (JObj (obj_set (spread_into [] (JObj c)) ''extends'' parent)) = parent"
  by (simp add: extends_of_def obj_lookup_obj_set)

lemma readConfig_pathsRaw_error:
  assumes "get_prop (JObj c) ''extends'' = Inr (JStr url)" and "url \<noteq> []"
    and "path_resolve (cwd h) [JStr (path_dirname file), JStr url] = Inr x"
    and "require h x = Inr parent"
    and "configPathsRaw (JObj (obj_set (spread_into [] (JObj c)) ''extends'' parent)) = Inl e"
  shows "readConfig h pp (JObj c) file = ([x], Inl e)"
  using assms by (simp add: readConfig_def thenE_def Let_def)

subsection \<open>The alias map of readConfig\<close>

lemma alias_step_result:
  assumes "alias_step pp wd (JObj m) a k = Inr a'"
  shows "\<exists>t r. alias_target (case obj_lookup m k of Some v \<Rightarrow> v | None \<Rightarrow> JUndefined) = JStr t
           \<and> path_resolve wd [JStr (appPath pp), JStr (strip_glob t)] = Inr r
           \<and> a' = assign_str a (strip_glob k) r"
  using assms
  by (auto simp: alias_step_def thenE_def split: js.splits sum.splits)

lemma alias_step_total:
  assumes "obj_lookup m k = Some v" and "alias_target v = JStr t"
  shows "\<exists>a'. alias_step pp wd (JObj m) a k = Inr a'"
proof -
  obtain r where "path_resolve wd [JStr (appPath pp), JStr (strip_glob t)] = Inr r"
    using path_resolve_strings by blast
  with assms show ?thesis by (simp add: alias_step_def thenE_def)
qed

lemma alias_reduce_append:
  "alias_reduce pp wd pr a (xs @ ys) =
     thenE (alias_reduce pp wd pr a xs) (\<lambda>a'. alias_reduce pp wd pr a' ys)"
  by (induction xs arbitrary: a) (auto simp: thenE_def split: sum.splits)

text \<open>Keys that strip to another alias leave an alias as it is.\<close>

lemma alias_reduce_other_keys:
  assumes "alias_reduce pp wd (JObj m) a keys = Inr am"
    and "\<forall>k' \<in> set keys. strip_glob k' \<noteq> K"
  shows "obj_lookup am K = obj_lookup a K"
  using assms
proof (induction keys arbitrary: a)
  case Nil
  then show ?case by simp
next
  case (Cons k keys)
  from Cons.prems(1) obtain a' where st: "alias_step pp wd (JObj m) a k = Inr a'"
    and rest: "alias_reduce pp wd (JObj m) a' keys = Inr am"
    by (auto simp: thenE_def split: sum.splits)
  from alias_step_result [OF st] obtain r where "a' = assign_str a (strip_glob k) r"
    by blast
  moreover have "strip_glob k \<noteq> K" using Cons.prems(2) by simp
  ultimately have "obj_lookup a' K = obj_lookup a K"
    by (simp add: assign_str_def obj_lookup_obj_set)
  moreover have "obj_lookup am K = obj_lookup a' K"
    using Cons.IH [OF rest] Cons.prems(2) by simp
  ultimately show ?case by simp
qed

lemma alias_reduce_total:
  assumes "\<forall>k \<in> set keys. \<exists>v t. obj_lookup m k = Some v \<and> alias_target v = JStr t"
  shows "\<exists>am. alias_reduce pp wd (JObj m) a keys = Inr am"
  using assms
proof (induction keys arbitrary: a)
  case Nil
  then show ?case by simp
next
  case (Cons k keys)
  then obtain v t where "obj_lookup m k = Some v" "alias_target v = JStr t" by auto
  then obtain a' where "alias_step pp wd (JObj m) a k = Inr a'"
    using alias_step_total by blast
  moreover obtain am where "alias_reduce pp wd (JObj m) a' keys = Inr am"
    using Cons.IH [of a'] Cons.prems by auto
  ultimately show ?case by (simp add: thenE_def)
qed

lemma alias_entry:
  assumes am: "aliasMap pp wd (JObj m) = Inr am"
    and m: "m = pre @ (k, v) # post"
    and later: "\<forall>kv \<in> set post. strip_glob (fst kv) \<noteq> strip_glob k"
    and proto: "strip_glob k \<noteq> ''__proto__''"
  shows "\<exists>t r. alias_target v = JStr t
           \<and> path_resolve wd [JStr (appPath pp), JStr (strip_glob t)] = Inr r
           \<and> obj_lookup am (strip_glob k) = Some (JStr r)"
proof -
  have "alias_reduce pp wd (JObj m) [] (map fst pre @ k # map fst post) = Inr am"
    using am m by (simp add: aliasMap_def)
  then obtain a1 a2 where
    st: "alias_step pp wd (JObj m) a1 k = Inr a2" and
    rest: "alias_reduce pp wd (JObj m) a2 (map fst post) = Inr am"
    by (auto simp: alias_reduce_append thenE_def split: sum.splits)
  have "k \<notin> fst ` set post" using later by auto
  then have "obj_lookup post k = None" by (simp add: obj_lookup_None)
  then have look: "obj_lookup m k = Some v"
    unfolding m by (simp add: obj_lookup_append)
  from alias_step_result [OF st] look obtain t r where
    t: "alias_target v = JStr t" and
    r: "path_resolve wd [JStr (appPath pp), JStr (strip_glob t)] = Inr r" and
    a2: "a2 = assign_str a1 (strip_glob k) r"
    by auto
  have "obj_lookup a2 (strip_glob k) = Some (JStr r)"
    using a2 proto by (simp add: assign_str_def obj_lookup_obj_set)
  moreover have "obj_lookup am (strip_glob k) = obj_lookup a2 (strip_glob k)"
    using alias_reduce_other_keys [OF rest] later by simp
  ultimately show ?thesis using t r by simp
qed

lemma aliasMap_total:
  assumes "\<forall>kv \<in> set m. \<exists>t. alias_target (snd kv) = JStr t"
  shows "\<exists>am. aliasMap pp wd (JObj m) = Inr am"
proof -
  have "\<exists>v t. obj_lookup m k = Some v \<and> alias_target v = JStr t" if "k \<in> set (map fst m)" for k
  proof -
    from that obtain v where v: "obj_lookup m k = Some v"
      using obj_lookup_None [of m k] by (cases "obj_lookup m k") auto
    then have "(k, v) \<in> set m" by (rule obj_lookup_in_set)
    with assms v show ?thesis by fastforce
  qed
  then show ?thesis
    unfolding aliasMap_def using alias_reduce_total [of "map fst m" m pp wd "[]"] by simp
qed

text \<open>
  Claim C7, as the code has it. When every value of the merged mapping is a string
  or an array that starts with a string, the reduction completes. When it
  completes, each key whose alias (the key without one trailing \<open>/*\<close>) is not also
  the alias of a later key, and is not \<open>__proto__\<close>, has an entry in the alias map:
  the alias is mapped to the first element of the key's array (or to the value, if
  it is not an array) without one trailing \<open>/*\<close>, resolved against the project root.
\<close>

theorem alias_map_entries:
  "((\<forall>kv \<in> set m. \<exists>t. alias_target (snd kv) = JStr t) \<longrightarrow>
      (\<exists>am. aliasMap pp wd (JObj m) = Inr am))
   \<and> (\<forall>am pre k v post.
         aliasMap pp wd (JObj m) = Inr am \<and> m = pre @ (k, v) # post
         \<and> (\<forall>kv \<in> set post. strip_glob (fst kv) \<noteq> strip_glob k)
         \<and> strip_glob k \<noteq> ''__proto__'' \<longrightarrow>
         (\<exists>t r. alias_target v = JStr t
            \<and> path_resolve wd [JStr (appPath pp), JStr (strip_glob t)] = Inr r
            \<and> obj_lookup am (strip_glob k) = Some (JStr r)))"
proof (intro conjI allI impI)
  assume "\<forall>kv \<in> set m. \<exists>t. alias_target (snd kv) = JStr t"
  then show "\<exists>am. aliasMap pp wd (JObj m) = Inr am"
    by (rule aliasMap_total)
next
  fix am pre k v post
  assume h: "aliasMap pp wd (JObj m) = Inr am \<and> m = pre @ (k, v) # post
         \<and> (\<forall>kv \<in> set post. strip_glob (fst kv) \<noteq> strip_glob k)
         \<and> strip_glob k \<noteq> ''__proto__''"
  then have 1: "aliasMap pp wd (JObj m) = Inr am" and 2: "m = pre @ (k, v) # post"
    and 3: "\<forall>kv \<in> set post. strip_glob (fst kv) \<noteq> strip_glob k"
    and 4: "strip_glob k \<noteq> ''__proto__''"
    by blast+
  show "\<exists>t r. alias_target v = JStr t
            \<and> path_resolve wd [JStr (appPath pp), JStr (strip_glob t)] = Inr r
            \<and> obj_lookup am (strip_glob k) = Some (JStr r)"
    using 1 2 3 4 by (rule alias_entry)
qed

theorem alias_map_entries_witness:
  "aliasMap sample_paths ''/home'' (JObj [(''components/*'', JArr [JStr ''./src/components/*''])])
     = Inr [(''components'', JStr ''/app/src/components'')]"
proof -
  let ?m = "[(''components/*'', JArr [JStr ''./src/components/*''])]"
  have all: "\<forall>kv \<in> set ?m. \<exists>t. alias_target (snd kv) = JStr t" by simp
  then obtain am where am: "aliasMap sample_paths ''/home'' (JObj ?m) = Inr am"
    using alias_map_entries [of ?m sample_paths "''/home''"] by blast
  have sp: "?m = [] @ (''components/*'', JArr [JStr ''./src/components/*'']) # []" by simp
  have later: "\<forall>kv \<in> set []. strip_glob (fst kv) \<noteq> strip_glob ''components/*''" by simp
  have k: "strip_glob ''components/*'' = ''components''" by (simp add: strip_glob_def)
  then have proto: "strip_glob ''components/*'' \<noteq> ''__proto__''" by simp
  have "\<exists>t r. alias_target (JArr [JStr ''./src/components/*'']) = JStr t
            \<and> path_resolve ''/home'' [JStr (appPath sample_paths), JStr (strip_glob t)] = Inr r
            \<and> obj_lookup am (strip_glob ''components/*'') = Some (JStr r)"
    using alias_map_entries [of ?m sample_paths "''/home''", THEN conjunct2, rule_format,
        of am "[]" "''components/*''" "JArr [JStr ''./src/components/*'']" "[]"]
      am sp later proto by blast
  moreover have "path_resolve ''/home'' [JStr (appPath sample_paths),
                   JStr (strip_glob ''./src/components/*'')] = Inr ''/app/src/components''"
    by code_simp
  ultimately have e: "obj_lookup am ''components'' = Some (JStr ''/app/src/components'')"
    using k by auto
  have "aliasMap sample_paths ''/home'' (JObj ?m) = Inr [(''components'', JStr ''/app/src/components'')]"
    by code_simp
  with e am show ?thesis by simp
qed

text \<open>
  Two keys with the same alias: the later one takes the entry, and the first
  element of the earlier key's array is nowhere in the alias map.
\<close>

theorem alias_collision_counterexample:
  "strip_glob ''@app/*'' = ''@app''
   \<and> path_resolve ''/home'' [JStr (appPath sample_paths), JStr (strip_glob ''./src/app/*'')]
       = Inr ''/app/src/app''
   \<and> aliasMap sample_paths ''/home''
        (JObj [(''@app/*'', JArr [JStr ''./src/app/*'']),
               (''@app'', JArr [JStr ''./src/app/index''])])
       = Inr [(''@app'', JStr ''/app/src/app/index'')]"
  by code_simp

end
